theory Spec2Isabelle
  imports Complex_Main "HOL-Library.Sublist"
begin

section \<open>Python values, data frames and the result file\<close>

text \<open>
  The sweep of \<^verbatim>\<open>hyperparameter_search_BCE.py\<close> keeps its results in a pandas
  data frame that is written to a CSV file after every combination. A cell of a frame is a
  Python scalar. A float is modelled by the real number it stands for (the only operation
  the sweep applies to it is \<^verbatim>\<open>==\<close>); \<open>NaN\<close> is the filler pandas puts where a
  column has no value.
\<close>

datatype cell = IntV int | BoolV bool | FloatV real | StrV string | NaN

text \<open>
  Python's \<^verbatim>\<open>==\<close> on scalars: \<^verbatim>\<open>int\<close>, \<^verbatim>\<open>bool\<close> and \<^verbatim>\<open>float\<close> compare by
  numeric value (\<^verbatim>\<open>True == 1 == 1.0\<close>), a string equals only the same string, and
  \<open>NaN\<close> equals nothing.
\<close>

fun num_val :: "cell \<Rightarrow> real option" where
  "num_val (IntV i) = Some (of_int i)"
| "num_val (BoolV b) = Some (if b then 1 else 0)"
| "num_val (FloatV r) = Some r"
| "num_val (StrV s) = None"
| "num_val NaN = None"

fun py_eq :: "cell \<Rightarrow> cell \<Rightarrow> bool" where
  "py_eq (StrV s) (StrV t) = (s = t)"
| "py_eq a b = (case num_val a of None \<Rightarrow> False
                | Some x \<Rightarrow> (case num_val b of None \<Rightarrow> False | Some y \<Rightarrow> x = y))"

text \<open>Tuples compare elementwise; tuples of different lengths are unequal.\<close>

definition py_tuple_eq :: "cell list \<Rightarrow> cell list \<Rightarrow> bool" where
  "py_tuple_eq s t = list_all2 py_eq s t"

text \<open>\<^verbatim>\<open>t in S\<close> for a set \<open>S\<close> of tuples.\<close>

definition py_in :: "cell list \<Rightarrow> cell list set \<Rightarrow> bool" where
  "py_in t S = (\<exists>k\<in>S. py_tuple_eq t k)"

record frame =
  columns :: "string list"
  rows :: "cell list list"

text \<open>
  \<^verbatim>\<open>pd.DataFrame(list_of_dicts)\<close>: the columns are the keys in the order they are first
  seen, every dict becomes a row, and a key a dict lacks reads \<open>NaN\<close>. The empty list
  gives a frame with no column and no row.
\<close>

definition cell_at :: "(string \<times> cell) list \<Rightarrow> string \<Rightarrow> cell" where
  "cell_at d c = (case map_of d c of None \<Rightarrow> NaN | Some v \<Rightarrow> v)"

definition DataFrame :: "(string \<times> cell) list list \<Rightarrow> frame" where
  "DataFrame ds =
     (let cols = fold (\<lambda>d cs. cs @ filter (\<lambda>k. k \<notin> set cs) (map fst d)) ds []
      in \<lparr>columns = cols, rows = map (\<lambda>d. map (cell_at d) cols) ds\<rparr>)"

text \<open>
  \<^verbatim>\<open>pd.concat([a, b], ignore_index=True)\<close>: the columns of \<open>a\<close> followed by those
  of \<open>b\<close> that \<open>a\<close> lacks; the rows of \<open>a\<close>, then the rows of \<open>b\<close>, every row laid
  out on the joint columns with \<open>NaN\<close> where its frame had no such column.
\<close>

definition reindex :: "string list \<Rightarrow> string list \<Rightarrow> cell list \<Rightarrow> cell list" where
  "reindex new_cols cols row = map (cell_at (zip cols row)) new_cols"

definition concat_df :: "frame \<Rightarrow> frame \<Rightarrow> frame" where
  "concat_df a b =
     (let cols = columns a @ filter (\<lambda>c. c \<notin> set (columns a)) (columns b)
      in \<lparr>columns = cols,
          rows = map (reindex cols (columns a)) (rows a) @ map (reindex cols (columns b)) (rows b)\<rparr>)"

datatype error = ParserError | KeyError | OSError | Raised string

text \<open>
  \<^verbatim>\<open>df[[c1, ..., cn]]\<close> raises \<^verbatim>\<open>KeyError\<close> when a named column is missing;
  \<^verbatim>\<open>itertuples(index=False, name=None)\<close> lists the rows as tuples.
\<close>

definition select_columns :: "frame \<Rightarrow> string list \<Rightarrow> error + frame" where
  "select_columns df cs =
     (if set cs \<subseteq> set (columns df)
      then Inr \<lparr>columns = cs, rows = map (reindex cs (columns df)) (rows df)\<rparr>
      else Inl KeyError)"

definition itertuples :: "frame \<Rightarrow> cell list list" where
  "itertuples df = rows df"

text \<open>
  A path of the file system holds nothing, a file \<^verbatim>\<open>pd.read_csv\<close> cannot parse, or
  a table. The CSV text itself is not modelled: a file holds the frame that was written
  to it, and reading gives that frame back.
\<close>

datatype stored = Unparseable | Csv frame

section \<open>The collaborators and the world\<close>

text \<open>
  \<^verbatim>\<open>prepare.full_prep\<close> returns fifteen values; \<^verbatim>\<open>run_hyper\<close> names eleven of
  them and drops the four of the test split. Tensors are values of an abstract type
  \<open>'t\<close>, trained models of an abstract type \<open>'m\<close>.
\<close>

type_synonym 't prep =
  "'t \<times> 't \<times> 't \<times> 't \<times> 't \<times> 't \<times> 't \<times> 't \<times> 't \<times> 't \<times> 't \<times> 't \<times> int list \<times> int \<times> int"

text \<open>The keyword arguments of \<^verbatim>\<open>train_model.train_and_return_LSTM\<close>.\<close>

record 't lstm_kwargs =
  kw_X_train :: 't
  kw_seq_len_train :: 't
  kw_y_train :: 't
  kw_s_train :: 't
  kw_loss_function :: string
  kw_vocab_sizes :: "int list"
  kw_num_numerical_features :: int
  kw_dropout :: real
  kw_lstm_size :: int
  kw_num_lstm :: int
  kw_bidirectional :: bool
  kw_max_length :: int
  kw_learning_rate :: real
  kw_max_epochs :: int
  kw_batch_size :: int
  kw_patience :: int
  kw_get_history :: bool
  kw_X_val :: 't
  kw_seq_len_val :: 't
  kw_y_val :: 't
  kw_s_val :: 't

text \<open>
  What lies outside the file: preprocessing, training, the forward pass of a trained
  model, the AUC, and whether a write to a path succeeds. Each may raise.
\<close>

record ('t, 'm) env =
  full_prep :: "string \<Rightarrow> string \<Rightarrow> int \<Rightarrow> bool \<Rightarrow> string \<Rightarrow> error + 't prep"
  train_and_return_LSTM :: "'t lstm_kwargs \<Rightarrow> error + 'm"
  forward :: "'m \<Rightarrow> 't \<Rightarrow> 't \<Rightarrow> error + 't"
  roc_auc_score :: "'t \<Rightarrow> 't \<Rightarrow> error + real"
  csv_write_ok :: "string \<Rightarrow> frame \<Rightarrow> bool"

text \<open>
  The calls the sweep makes, in the order it makes them, and the file system. Logging
  and the choice of the compute device are left out.
\<close>

datatype ('t, 'm) event =
    FullPrep string string int bool string
  | TrainLSTM "'t lstm_kwargs"
  | Evaluate 'm 't 't 't
  | ToCsv string frame

record ('t, 'm) world =
  fs :: "string \<rightharpoonup> stored"
  calls :: "('t, 'm) event list"

definition call :: "('t, 'm) event \<Rightarrow> ('t, 'm) world \<Rightarrow> ('t, 'm) world" where
  "call ev w = w\<lparr>calls := calls w @ [ev]\<rparr>"

definition read_csv :: "('t, 'm) world \<Rightarrow> string \<Rightarrow> error + frame" where
  "read_csv w path =
     (case fs w path of
        None \<Rightarrow> Inl OSError
      | Some Unparseable \<Rightarrow> Inl ParserError
      | Some (Csv df) \<Rightarrow> Inr df)"

definition to_csv ::
  "('t, 'm) env \<Rightarrow> frame \<Rightarrow> string \<Rightarrow> ('t, 'm) world \<Rightarrow> ('t, 'm) world \<times> (error + unit)" where
  "to_csv env df path w =
     (let w1 = call (ToCsv path df) w
      in if csv_write_ok env path df
         then (w1\<lparr>fs := (fs w1)(path \<mapsto> Csv df)\<rparr>, Inr ())
         else (w1, Inl OSError))"

section \<open>The sweep\<close>

type_synonym combination = "int \<times> bool \<times> int \<times> int \<times> real \<times> real"

definition num_layers_lst :: "int list" where "num_layers_lst = [1, 2]"
definition bidirectional_lst :: "bool list" where "bidirectional_lst = [False, True]"
definition LSTM_size_lst :: "int list" where "LSTM_size_lst = [16, 32, 64]"
definition batch_size_lst :: "int list" where "batch_size_lst = [128, 256, 512]"
definition learning_rate_lst :: "real list" where "learning_rate_lst = [1 / 10000, 1 / 1000]"
definition dropout_lst :: "real list" where "dropout_lst = [2 / 10, 4 / 10]"

text \<open>
  \<^verbatim>\<open>list(product(...))\<close>: \<^verbatim>\<open>itertools.product\<close> runs its arguments as nested
  loops, the first outermost.
\<close>

definition hyperparameter_combinations :: "combination list" where
  "hyperparameter_combinations =
     [(num_layers, bidirectional, lstm_size, batch_size, learning_rate, dropout).
        num_layers \<leftarrow> num_layers_lst, bidirectional \<leftarrow> bidirectional_lst,
        lstm_size \<leftarrow> LSTM_size_lst, batch_size \<leftarrow> batch_size_lst,
        learning_rate \<leftarrow> learning_rate_lst, dropout \<leftarrow> dropout_lst]"

text \<open>A combination as the Python tuple it is.\<close>

fun py_tuple :: "combination \<Rightarrow> cell list" where
  "py_tuple (num_layers, bidirectional, lstm_size, batch_size, learning_rate, dropout) =
     [IntV num_layers, BoolV bidirectional, IntV lstm_size, IntV batch_size,
      FloatV learning_rate, FloatV dropout]"

definition key_columns :: "string list" where
  "key_columns = [''num_layers'', ''bidirectional'', ''lstm_size'', ''batch_size'',
                  ''learning_rate'', ''dropout'']"

definition result_columns :: "string list" where
  "result_columns = [''num_layers'', ''bidirectional'', ''lstm_size'', ''batch_size'',
                     ''learning_rate'', ''dropout'', ''auc_score'']"

definition results_path_of :: "string \<Rightarrow> string \<Rightarrow> string" where
  "results_path_of logname addendum =
     ''Results/Hyperparameters/BCE/'' @ logname @ ''_'' @ addendum
       @ ''_hyperparameter_tuning_results.csv''"

text \<open>
  Lines 55 to 67 of \<^verbatim>\<open>run_hyper\<close>: the existing results and the set of completed
  combinations.
\<close>

definition load_results ::
  "('t, 'm) world \<Rightarrow> string \<Rightarrow> error + (frame \<times> cell list set)" where
  "load_results w results_path =
     (if fs w results_path \<noteq> None
      then (case read_csv w results_path of
              Inl e \<Rightarrow> Inl e
            | Inr existing_results_df \<Rightarrow>
                (case select_columns existing_results_df key_columns of
                   Inl e \<Rightarrow> Inl e
                 | Inr keys \<Rightarrow> Inr (existing_results_df, set (itertuples keys))))
      else Inr (\<lparr>columns = result_columns, rows = []\<rparr>, {}))"

definition initialize_model ::
  "('t, 'm) env \<Rightarrow> 't \<Rightarrow> 't \<Rightarrow> 't \<Rightarrow> 't \<Rightarrow> int list \<Rightarrow> int \<Rightarrow> int \<Rightarrow> bool \<Rightarrow> int \<Rightarrow> int \<Rightarrow> real
     \<Rightarrow> real \<Rightarrow> int \<Rightarrow> int \<Rightarrow> int \<Rightarrow> 't \<Rightarrow> 't \<Rightarrow> 't \<Rightarrow> 't
     \<Rightarrow> ('t, 'm) world \<Rightarrow> ('t, 'm) world \<times> (error + 'm)" where
  "initialize_model env X_train seq_len_train y_train s_train vocab_sizes
       num_numerical_features num_layers bidirectional lstm_size batch_size learning_rate
       dropout max_length max_epochs patience X_val seq_len_val y_val s_val w =
     (let kwargs = \<lparr>kw_X_train = X_train,
                     kw_seq_len_train = seq_len_train,
                     kw_y_train = y_train,
                     kw_s_train = s_train,
                     kw_loss_function = ''BCE'',
                     kw_vocab_sizes = vocab_sizes,
                     kw_num_numerical_features = num_numerical_features,
                     kw_dropout = dropout,
                     kw_lstm_size = lstm_size,
                     kw_num_lstm = num_layers,
                     kw_bidirectional = bidirectional,
                     kw_max_length = max_length,
                     kw_learning_rate = learning_rate,
                     kw_max_epochs = max_epochs,
                     kw_batch_size = batch_size,
                     kw_patience = patience,
                     kw_get_history = False,
                     kw_X_val = X_val,
                     kw_seq_len_val = seq_len_val,
                     kw_y_val = y_val,
                     kw_s_val = s_val\<rparr>
      in (call (TrainLSTM kwargs) w, train_and_return_LSTM env kwargs))"

definition evaluate_model ::
  "('t, 'm) env \<Rightarrow> 'm \<Rightarrow> 't \<Rightarrow> 't \<Rightarrow> 't \<Rightarrow> ('t, 'm) world \<Rightarrow> ('t, 'm) world \<times> (error + real)" where
  "evaluate_model env model X_val y_val seq_len_val w =
     (let w1 = call (Evaluate model X_val y_val seq_len_val) w
      in case forward env model X_val seq_len_val of
           Inl e \<Rightarrow> (w1, Inl e)
         | Inr val_output \<Rightarrow> (w1, roc_auc_score env y_val val_output))"

text \<open>The dict that \<^verbatim>\<open>run_hyper\<close> appends to \<^verbatim>\<open>new_results\<close>.\<close>

definition result_dict :: "combination \<Rightarrow> real \<Rightarrow> (string \<times> cell) list" where
  "result_dict combination auc =
     (case combination of
        (num_layers, bidirectional, lstm_size, batch_size, learning_rate, dropout) \<Rightarrow>
          [(''num_layers'', IntV num_layers),
           (''bidirectional'', BoolV bidirectional),
           (''lstm_size'', IntV lstm_size),
           (''batch_size'', IntV batch_size),
           (''learning_rate'', FloatV learning_rate),
           (''dropout'', FloatV dropout),
           (''auc_score'', FloatV auc)])"

text \<open>
  The loop of lines 75 to 124 over \<^verbatim>\<open>combinations_to_run\<close>, with
  \<^verbatim>\<open>new_results\<close> as it stands. An exception of a collaborator or of the write ends
  the loop and is the result.
\<close>

fun sweep_loop ::
  "('t, 'm) env \<Rightarrow> 't prep \<Rightarrow> string \<Rightarrow> frame \<Rightarrow> combination list \<Rightarrow> (string \<times> cell) list list
     \<Rightarrow> ('t, 'm) world \<Rightarrow> ('t, 'm) world \<times> (error + (string \<times> cell) list list)" where
  "sweep_loop env p results_path existing_results_df [] new_results w = (w, Inr new_results)"
| "sweep_loop env p results_path existing_results_df (combination # rest) new_results w =
     (case p of
        (X_train, seq_len_train, y_train, s_train, X_val, seq_len_val, y_val, s_val,
         u1, u2, u3, u4, vocsizes, num_numerical_features, new_max_prefix_len) \<Rightarrow>
     (case combination of
        (num_layers, bidirectional, lstm_size, batch_size, learning_rate, dropout) \<Rightarrow>
     (case initialize_model env X_train seq_len_train y_train s_train vocsizes
             num_numerical_features num_layers bidirectional lstm_size batch_size
             learning_rate dropout new_max_prefix_len 300 20 X_val seq_len_val y_val s_val w of
        (w1, Inl e) \<Rightarrow> (w1, Inl e)
      | (w1, Inr model) \<Rightarrow>
     (case evaluate_model env model X_val y_val seq_len_val w1 of
        (w2, Inl e) \<Rightarrow> (w2, Inl e)
      | (w2, Inr auc) \<Rightarrow>
          (let new_results' = new_results @ [result_dict combination auc];
               temp_results_df = DataFrame new_results';
               results_df = concat_df existing_results_df temp_results_df
           in case to_csv env results_df results_path w2 of
                (w3, Inl e) \<Rightarrow> (w3, Inl e)
              | (w3, Inr u) \<Rightarrow>
                  sweep_loop env p results_path existing_results_df rest new_results' w3)))))"

text \<open>Line 73: the combinations left to run, in the order of the enumeration.\<close>

definition combinations_to_run :: "cell list set \<Rightarrow> combination list" where
  "combinations_to_run completed_combinations =
     filter (\<lambda>comb. \<not> py_in (py_tuple comb) completed_combinations)
       hyperparameter_combinations"

definition run_hyper ::
  "('t, 'm) env \<Rightarrow> string \<Rightarrow> string \<Rightarrow> int \<Rightarrow> string \<Rightarrow> ('t, 'm) world
     \<Rightarrow> ('t, 'm) world \<times> (error + frame)" where
  "run_hyper env dataset_name logname max_prefix_len addendum w =
     (let w1 = call (FullPrep dataset_name logname max_prefix_len False ''case:gender'') w
      in case full_prep env dataset_name logname max_prefix_len False ''case:gender'' of
           Inl e \<Rightarrow> (w1, Inl e)
         | Inr p \<Rightarrow>
     (let results_path = results_path_of logname addendum
      in case load_results w1 results_path of
           Inl e \<Rightarrow> (w1, Inl e)
         | Inr (existing_results_df, completed_combinations) \<Rightarrow>
     (case sweep_loop env p results_path existing_results_df
             (combinations_to_run completed_combinations) [] w1 of
           (w2, Inl e) \<Rightarrow> (w2, Inl e)
         | (w2, Inr new_results) \<Rightarrow>
             (let results_df = concat_df existing_results_df (DataFrame new_results)
              in case to_csv env results_df results_path w2 of
                   (w3, Inl e) \<Rightarrow> (w3, Inl e)
                 | (w3, Inr u) \<Rightarrow> (w3, Inr results_df)))))"

section \<open>Reading the store and the call log\<close>

text \<open>
  The combinations a frame records (the six key columns of every row, as
  \<^verbatim>\<open>run_hyper\<close> reads them to build \<^verbatim>\<open>completed_combinations\<close>), and its result
  records (the six key columns and the metric).
\<close>

definition store_keys :: "frame \<Rightarrow> cell list list" where
  "store_keys df = map (reindex key_columns (columns df)) (rows df)"

definition store_records :: "frame \<Rightarrow> cell list list" where
  "store_records df = map (reindex result_columns (columns df)) (rows df)"


text \<open>No two of the listed combinations are equal as Python tuples.\<close>

fun no_dup_keys :: "cell list list \<Rightarrow> bool" where
  "no_dup_keys [] = True"
| "no_dup_keys (k # ks) = ((\<forall>k'\<in>set ks. \<not> py_tuple_eq k k') \<and> no_dup_keys ks)"

text \<open>The calls of each kind in a log, in order.\<close>

fun train_calls :: "('t, 'm) event list \<Rightarrow> 't lstm_kwargs list" where
  "train_calls [] = []"
| "train_calls (TrainLSTM kwargs # evs) = kwargs # train_calls evs"
| "train_calls (ev # evs) = train_calls evs"

fun evaluate_calls :: "('t, 'm) event list \<Rightarrow> ('m \<times> 't \<times> 't \<times> 't) list" where
  "evaluate_calls [] = []"
| "evaluate_calls (Evaluate model X_val y_val seq_len_val # evs) =
     (model, X_val, y_val, seq_len_val) # evaluate_calls evs"
| "evaluate_calls (ev # evs) = evaluate_calls evs"

fun csv_writes :: "('t, 'm) event list \<Rightarrow> (string \<times> frame) list" where
  "csv_writes [] = []"
| "csv_writes (ToCsv path df # evs) = (path, df) # csv_writes evs"
| "csv_writes (ev # evs) = csv_writes evs"

fun prep_calls :: "('t, 'm) event list \<Rightarrow> (string \<times> string \<times> int \<times> bool \<times> string) list" where
  "prep_calls [] = []"
| "prep_calls (FullPrep filename logname max_prefix_len drop_sensitive sensitive_column # evs) =
     (filename, logname, max_prefix_len, drop_sensitive, sensitive_column) # prep_calls evs"
| "prep_calls (ev # evs) = prep_calls evs"

text \<open>The calls a run made: those of the world it ended in beyond those it started with.\<close>

definition new_calls :: "('t, 'm) world \<Rightarrow> ('t, 'm) world \<Rightarrow> ('t, 'm) event list" where
  "new_calls w w' = drop (length (calls w)) (calls w')"

definition kwargs_combination :: "'t lstm_kwargs \<Rightarrow> combination" where
  "kwargs_combination kwargs =
     (kw_num_lstm kwargs, kw_bidirectional kwargs, kw_lstm_size kwargs, kw_batch_size kwargs,
      kw_learning_rate kwargs, kw_dropout kwargs)"

text \<open>
  What \<^verbatim>\<open>run_hyper\<close> passes on to training for a combination, through
  \<^verbatim>\<open>initialize_model\<close>; the validation data it evaluates on; and what training and
  then evaluating a combination yields: the model and its AUC, or the first exception.
\<close>

definition sweep_kwargs :: "'t prep \<Rightarrow> combination \<Rightarrow> 't lstm_kwargs" where
  "sweep_kwargs p combination =
     (case p of
        (X_train, seq_len_train, y_train, s_train, X_val, seq_len_val, y_val, s_val,
         u1, u2, u3, u4, vocsizes, num_numerical_features, new_max_prefix_len) \<Rightarrow>
     (case combination of
        (num_layers, bidirectional, lstm_size, batch_size, learning_rate, dropout) \<Rightarrow>
          \<lparr>kw_X_train = X_train,
           kw_seq_len_train = seq_len_train,
           kw_y_train = y_train,
           kw_s_train = s_train,
           kw_loss_function = ''BCE'',
           kw_vocab_sizes = vocsizes,
           kw_num_numerical_features = num_numerical_features,
           kw_dropout = dropout,
           kw_lstm_size = lstm_size,
           kw_num_lstm = num_layers,
           kw_bidirectional = bidirectional,
           kw_max_length = new_max_prefix_len,
           kw_learning_rate = learning_rate,
           kw_max_epochs = 300,
           kw_batch_size = batch_size,
           kw_patience = 20,
           kw_get_history = False,
           kw_X_val = X_val,
           kw_seq_len_val = seq_len_val,
           kw_y_val = y_val,
           kw_s_val = s_val\<rparr>))"

definition val_data :: "'t prep \<Rightarrow> 't \<times> 't \<times> 't" where
  "val_data p =
     (case p of
        (X_train, seq_len_train, y_train, s_train, X_val, seq_len_val, y_val, s_val,
         u1, u2, u3, u4, vocsizes, num_numerical_features, new_max_prefix_len) \<Rightarrow>
        (X_val, y_val, seq_len_val))"

definition outcome :: "('t, 'm) env \<Rightarrow> 't prep \<Rightarrow> combination \<Rightarrow> error + ('m \<times> real)" where
  "outcome env p combination =
     (case val_data p of (X_val, y_val, seq_len_val) \<Rightarrow>
     (case train_and_return_LSTM env (sweep_kwargs p combination) of
        Inl e \<Rightarrow> Inl e
      | Inr model \<Rightarrow>
          (case forward env model X_val seq_len_val of
             Inl e \<Rightarrow> Inl e
           | Inr val_output \<Rightarrow>
               (case roc_auc_score env y_val val_output of
                  Inl e \<Rightarrow> Inl e
                | Inr auc \<Rightarrow> Inr (model, auc)))))"

definition new_record :: "('t, 'm) env \<Rightarrow> 't prep \<Rightarrow> combination \<Rightarrow> (string \<times> cell) list" where
  "new_record env p c = result_dict c (snd (projr (outcome env p c)))"

text \<open>
  Every evaluation is of the model that the training call at the same position returned,
  on the validation data.
\<close>

definition evaluates_trained ::
  "('t, 'm) env \<Rightarrow> 't prep \<Rightarrow> 't lstm_kwargs list \<Rightarrow> ('m \<times> 't \<times> 't \<times> 't) list \<Rightarrow> bool" where
  "evaluates_trained env p ts es =
     list_all2 (\<lambda>kwargs ev. train_and_return_LSTM env kwargs = Inr (fst ev) \<and> snd ev = val_data p)
       (take (length es) ts) es"

text \<open>
  The combinations \<open>cs\<close> all train, evaluate and flush without an exception, and the
  calls the loop then makes.
\<close>

fun passes ::
  "('t, 'm) env \<Rightarrow> 't prep \<Rightarrow> string \<Rightarrow> frame \<Rightarrow> (string \<times> cell) list list \<Rightarrow> combination list \<Rightarrow> bool" where
  "passes env p path existing new [] = True"
| "passes env p path existing new (c # cs) =
     (\<not> isl (outcome env p c)
      \<and> csv_write_ok env path (concat_df existing (DataFrame (new @ [new_record env p c])))
      \<and> passes env p path existing (new @ [new_record env p c]) cs)"

definition step_events ::
  "'t prep \<Rightarrow> string \<Rightarrow> combination \<Rightarrow> 'm \<Rightarrow> frame \<Rightarrow> ('t, 'm) event list" where
  "step_events p path c m df =
     (case val_data p of (X_val, y_val, seq_len_val) \<Rightarrow>
        [TrainLSTM (sweep_kwargs p c), Evaluate m X_val y_val seq_len_val, ToCsv path df])"

fun loop_events ::
  "('t, 'm) env \<Rightarrow> 't prep \<Rightarrow> string \<Rightarrow> frame \<Rightarrow> (string \<times> cell) list list \<Rightarrow> combination list
     \<Rightarrow> ('t, 'm) event list" where
  "loop_events env p path existing new [] = []"
| "loop_events env p path existing new (c # cs) =
     step_events p path c (fst (projr (outcome env p c)))
       (concat_df existing (DataFrame (new @ [new_record env p c])))
     @ loop_events env p path existing (new @ [new_record env p c]) cs"

section \<open>Example inputs\<close>

definition prep_example :: "nat prep" where
  "prep_example = (1, 2, 3, 4, 5, 6, 7, 8, 9, 10, 11, 12, [4, 7], 3, 6)"

definition env_ok :: "(nat, nat) env" where
  "env_ok =
     \<lparr>full_prep = (\<lambda>filename logname max_prefix_len drop_sensitive sensitive_column.
                     Inr prep_example),
      train_and_return_LSTM = (\<lambda>kwargs. Inr (nat (kw_lstm_size kwargs))),
      forward = (\<lambda>model X seq_len. Inr model),
      roc_auc_score = (\<lambda>y_gt y_pred. Inr (1 / 2)),
      csv_write_ok = (\<lambda>path df. True)\<rparr>"

definition env_raising :: "(nat, nat) env" where
  "env_raising =
     env_ok\<lparr>train_and_return_LSTM :=
              (\<lambda>kwargs. if kw_learning_rate kwargs = 1 / 1000 then Inl (Raised ''loss is nan'')
                        else Inr (nat (kw_lstm_size kwargs)))\<rparr>"

definition world_empty :: "(nat, nat) world" where
  "world_empty = \<lparr>fs = Map.empty, calls = []\<rparr>"

definition seeded_row :: "cell list" where
  "seeded_row = [IntV 1, BoolV False, IntV 16, IntV 128, FloatV (1 / 10000), FloatV (2 / 10),
                 FloatV (7 / 10)]"

definition world_seeded :: "(nat, nat) world" where
  "world_seeded =
     \<lparr>fs = [results_path_of ''lending'' ''high'' \<mapsto>
               Csv \<lparr>columns = result_columns, rows = [seeded_row]\<rparr>],
      calls = []\<rparr>"

definition world_dup :: "(nat, nat) world" where
  "world_dup =
     \<lparr>fs = [results_path_of ''lending'' ''high'' \<mapsto>
               Csv \<lparr>columns = result_columns, rows = [seeded_row, seeded_row]\<rparr>],
      calls = []\<rparr>"

definition world_nocol :: "(nat, nat) world" where
  "world_nocol =
     \<lparr>fs = [results_path_of ''lending'' ''high'' \<mapsto>
               Csv \<lparr>columns = [''num_layers'', ''auc_score''], rows = [[IntV 1, FloatV (7 / 10)]]\<rparr>],
      calls = []\<rparr>"



section \<open>Frames\<close>

lemma cell_at_zip_map: "cell_at (zip cs (map f cs)) c = (if c \<in> set cs then f c else NaN)"
  by (induction cs) (auto simp: cell_at_def)

lemma cell_at_absent: "c \<notin> set cs \<Longrightarrow> cell_at (zip cs row) c = NaN"
proof -
  assume "c \<notin> set cs"
  then have "c \<notin> fst ` set (zip cs row)"
    by (auto dest: set_zip_leftD)
  then have "map_of (zip cs row) c = None"
    by (simp add: map_of_eq_None_iff)
  then show ?thesis by (simp add: cell_at_def)
qed

lemma reindex_reindex:
  assumes "set cols0 \<subseteq> set cols"
  shows "reindex X cols (reindex cols cols0 row) = reindex X cols0 row"
proof -
  have "(if c \<in> set cols then cell_at (zip cols0 row) c else NaN) = cell_at (zip cols0 row) c" for c
  proof (cases "c \<in> set cols")
    case True
    then show ?thesis by simp
  next
    case False
    with assms have "c \<notin> set cols0" by blast
    with False show ?thesis by (simp add: cell_at_absent)
  qed
  then show ?thesis
    by (simp add: reindex_def cell_at_zip_map)
qed

lemma columns_concat_df:
  "columns (concat_df a b) = columns a @ filter (\<lambda>c. c \<notin> set (columns a)) (columns b)"
  by (simp add: concat_df_def Let_def)

lemma rows_concat_df:
  "rows (concat_df a b) = map (reindex (columns (concat_df a b)) (columns a)) (rows a)
                          @ map (reindex (columns (concat_df a b)) (columns b)) (rows b)"
  by (simp add: concat_df_def Let_def)

lemma reindex_concat_df:
  "map (reindex X (columns (concat_df a b))) (rows (concat_df a b))
     = map (reindex X (columns a)) (rows a) @ map (reindex X (columns b)) (rows b)"
proof -
  have "set (columns a) \<subseteq> set (columns (concat_df a b))"
    and "set (columns b) \<subseteq> set (columns (concat_df a b))"
    by (auto simp: columns_concat_df)
  then show ?thesis
    by (subst rows_concat_df) (simp add: reindex_reindex)
qed

lemma store_keys_concat_df: "store_keys (concat_df a b) = store_keys a @ store_keys b"
  by (simp add: store_keys_def reindex_concat_df)

lemma store_records_concat_df: "store_records (concat_df a b) = store_records a @ store_records b"
  by (simp add: store_records_def reindex_concat_df)


text \<open>The frame of a list of result dicts.\<close>

lemma result_dict_keys: "map fst (result_dict c auc) = result_columns"
  by (cases c) (simp add: result_dict_def result_columns_def)

lemma DataFrame_columns_aux:
  assumes "\<forall>d\<in>set ds. map fst d = ks" and "set ks \<subseteq> set cs"
  shows "fold (\<lambda>d cs. cs @ filter (\<lambda>k. k \<notin> set cs) (map fst d)) ds cs = cs"
  using assms
proof (induction ds arbitrary: cs)
  case Nil
  then show ?case by simp
next
  case (Cons d ds)
  from Cons.prems have "filter (\<lambda>k. k \<notin> set cs) (map fst d) = []"
    by (auto simp: filter_empty_conv)
  with Cons show ?case by simp
qed

lemma columns_DataFrame:
  assumes "\<forall>d\<in>set ds. map fst d = ks"
  shows "columns (DataFrame ds) = (if ds = [] then [] else ks)"
proof (cases ds)
  case Nil
  then show ?thesis by (simp add: DataFrame_def)
next
  case (Cons d ds')
  with assms have "map fst d = ks" and "\<forall>d\<in>set ds'. map fst d = ks"
    by simp_all
  then show ?thesis
    using Cons DataFrame_columns_aux[of ds' ks ks]
    by (simp add: DataFrame_def Let_def)
qed

lemma cell_at_keys:
  assumes "distinct (map fst d)"
  shows "map (cell_at d) (map fst d) = map snd d"
  using assms
proof (induction d)
  case Nil
  then show ?case by simp
next
  case (Cons kv d)
  obtain k v where kv: "kv = (k, v)" by (cases kv)
  from Cons.prems kv have "k \<notin> fst ` set d" and "distinct (map fst d)"
    by auto
  then have "map (cell_at ((k, v) # d)) (map fst d) = map (cell_at d) (map fst d)"
    by (auto simp: cell_at_def)
  with Cons.IH \<open>distinct (map fst d)\<close> show ?case
    by (simp add: kv cell_at_def)
qed

lemma rows_DataFrame:
  assumes "\<forall>d\<in>set ds. map fst d = ks" and "distinct ks"
  shows "rows (DataFrame ds) = map (map snd) ds"
proof -
  have "map (cell_at d) ks = map snd d" if "d \<in> set ds" for d
    using that assms cell_at_keys[of d] by auto
  then show ?thesis
    using columns_DataFrame[OF assms(1)]
    by (cases ds) (simp_all add: DataFrame_def Let_def)
qed

lemma reindex_self: "distinct cs \<Longrightarrow> length row = length cs \<Longrightarrow> reindex cs cs row = row"
proof -
  assume d: "distinct cs" and l: "length row = length cs"
  have "map (cell_at (zip cs row)) (map fst (zip cs row)) = map snd (zip cs row)"
    by (rule cell_at_keys) (simp add: d l)
  with l show ?thesis by (simp add: reindex_def)
qed

lemma store_records_DataFrame:
  "store_records (DataFrame (map (\<lambda>c. result_dict c (auc c)) cs))
     = map (\<lambda>c. map snd (result_dict c (auc c))) cs"
proof -
  let ?ds = "map (\<lambda>c. result_dict c (auc c)) cs"
  have k: "\<forall>d\<in>set ?ds. map fst d = result_columns"
    by (auto simp: result_dict_keys)
  have d: "distinct result_columns"
    by (simp add: result_columns_def)
  have "reindex result_columns result_columns (map snd (result_dict c (auc c)))
          = map snd (result_dict c (auc c))" for c
    using result_dict_keys[of c "auc c"]
    by (intro reindex_self[OF d]) (metis length_map)
  then show ?thesis
    using columns_DataFrame[OF k] rows_DataFrame[OF k d]
    by (cases cs) (simp_all add: store_records_def)
qed

lemma store_keys_DataFrame:
  "store_keys (DataFrame (map (\<lambda>c. result_dict c (auc c)) cs)) = map py_tuple cs"
proof -
  let ?ds = "map (\<lambda>c. result_dict c (auc c)) cs"
  have k: "\<forall>d\<in>set ?ds. map fst d = result_columns"
    by (auto simp: result_dict_keys)
  have d: "distinct result_columns"
    by (simp add: result_columns_def)
  have "reindex key_columns result_columns (map snd (result_dict c (auc c))) = py_tuple c" for c
    by (cases c) (simp add: reindex_def result_columns_def key_columns_def result_dict_def cell_at_def)
  then show ?thesis
    using columns_DataFrame[OF k] rows_DataFrame[OF k d]
    by (cases cs) (simp_all add: store_keys_def)
qed

section \<open>The loop\<close>

lemma prep_cases:
  fixes p :: "'t prep"
  obtains X_train seq_len_train y_train s_train X_val seq_len_val y_val s_val
         u1 u2 u3 u4 vocsizes num_numerical_features new_max_prefix_len
  where "p = (X_train, seq_len_train, y_train, s_train, X_val, seq_len_val, y_val, s_val,
         u1, u2, u3, u4, vocsizes, num_numerical_features, new_max_prefix_len)"
  by (metis surj_pair)

lemma sweep_loop_Cons:
  "sweep_loop env p path existing (c # rest) new w =
     (case val_data p of (X_val, y_val, seq_len_val) \<Rightarrow>
      (let w1 = call (TrainLSTM (sweep_kwargs p c)) w in
       case train_and_return_LSTM env (sweep_kwargs p c) of
         Inl e \<Rightarrow> (w1, Inl e)
       | Inr model \<Rightarrow>
          (case evaluate_model env model X_val y_val seq_len_val w1 of
             (w2, Inl e) \<Rightarrow> (w2, Inl e)
           | (w2, Inr auc) \<Rightarrow>
               (case to_csv env (concat_df existing (DataFrame (new @ [result_dict c auc]))) path w2 of
                  (w3, Inl e) \<Rightarrow> (w3, Inl e)
                | (w3, Inr u) \<Rightarrow> sweep_loop env p path existing rest (new @ [result_dict c auc]) w3))))"
proof (cases p rule: prep_cases)
  case 1
  obtain a b c1 d e f where c: "c = (a, b, c1, d, e, f)" by (cases c)
  show ?thesis
    unfolding 1 c
    by (simp add: initialize_model_def sweep_kwargs_def val_data_def Let_def split: sum.splits prod.splits)
qed


declare sweep_loop.simps(2) [simp del]

lemma train_calls_append: "train_calls (xs @ ys) = train_calls xs @ train_calls ys"
  by (induction xs rule: train_calls.induct) simp_all

lemma evaluate_calls_append: "evaluate_calls (xs @ ys) = evaluate_calls xs @ evaluate_calls ys"
  by (induction xs rule: evaluate_calls.induct) simp_all


lemma prep_calls_append: "prep_calls (xs @ ys) = prep_calls xs @ prep_calls ys"
  by (induction xs rule: prep_calls.induct) simp_all

lemma evaluates_trained_Nil [simp]: "evaluates_trained env p ts []"
  by (simp add: evaluates_trained_def)

lemma evaluates_trained_Cons [simp]:
  "evaluates_trained env p (k # ts) (e # es) \<longleftrightarrow>
     train_and_return_LSTM env k = Inr (fst e) \<and> snd e = val_data p \<and> evaluates_trained env p ts es"
  by (simp add: evaluates_trained_def)

lemma step_events_calls:
  "train_calls (step_events p path c m df) = [sweep_kwargs p c]"
  "evaluate_calls (step_events p path c m df) = [(m, val_data p)]"
  "csv_writes (step_events p path c m df) = [(path, df)]"
  "prep_calls (step_events p path c m df) = []"
  by (simp_all add: step_events_def split: prod.splits)

lemma outcome_trained:
  "outcome env p c = Inr (m, auc) \<Longrightarrow> train_and_return_LSTM env (sweep_kwargs p c) = Inr m"
  by (auto simp: outcome_def split: sum.splits prod.splits)

text \<open>One pass of the loop body that fails in training or evaluation.\<close>

lemma sweep_loop_raises:
  assumes "outcome env p c = Inl e"
  shows "\<exists>evs. sweep_loop env p path existing (c # rest) new w = (w\<lparr>calls := calls w @ evs\<rparr>, Inl e)
           \<and> train_calls evs = [sweep_kwargs p c] \<and> csv_writes evs = [] \<and> prep_calls evs = []
           \<and> evaluates_trained env p (train_calls evs) (evaluate_calls evs)"
proof (cases "train_and_return_LSTM env (sweep_kwargs p c)")
  case (Inl e')
  with assms have "e' = e"
    by (simp add: outcome_def split: prod.splits)
  with Inl have "sweep_loop env p path existing (c # rest) new w
      = (w\<lparr>calls := calls w @ [TrainLSTM (sweep_kwargs p c)]\<rparr>, Inl e)"
    by (simp add: sweep_loop_Cons call_def split: prod.splits)
  then show ?thesis
    by (intro exI[of _ "[TrainLSTM (sweep_kwargs p c)]"]) simp
next
  case (Inr m)
  obtain X_val y_val seq_len_val where v: "val_data p = (X_val, y_val, seq_len_val)"
    by (cases "val_data p")
  from assms Inr v have "snd (evaluate_model env m X_val y_val seq_len_val w') = Inl e" for w'
    by (auto simp: outcome_def evaluate_model_def Let_def split: sum.splits)
  moreover have "fst (evaluate_model env m X_val y_val seq_len_val w')
       = call (Evaluate m X_val y_val seq_len_val) w'" for w'
    by (simp add: evaluate_model_def Let_def split: sum.splits)
  ultimately have "evaluate_model env m X_val y_val seq_len_val w'
       = (call (Evaluate m X_val y_val seq_len_val) w', Inl e)" for w'
    by (metis prod.collapse)
  with Inr v have "sweep_loop env p path existing (c # rest) new w
      = (w\<lparr>calls := calls w @ [TrainLSTM (sweep_kwargs p c), Evaluate m X_val y_val seq_len_val]\<rparr>, Inl e)"
    by (simp add: sweep_loop_Cons call_def)
  then show ?thesis
    using Inr v
    by (intro exI[of _ "[TrainLSTM (sweep_kwargs p c), Evaluate m X_val y_val seq_len_val]"]) simp
qed

lemma sweep_loop_passes:
  assumes "outcome env p c = Inr (m, auc)"
    and "df = concat_df existing (DataFrame (new @ [result_dict c auc]))"
  shows "sweep_loop env p path existing (c # rest) new w =
          (if csv_write_ok env path df
           then sweep_loop env p path existing rest (new @ [result_dict c auc])
                  (w\<lparr>calls := calls w @ step_events p path c m df, fs := (fs w)(path \<mapsto> Csv df)\<rparr>)
           else (w\<lparr>calls := calls w @ step_events p path c m df\<rparr>, Inl OSError))"
proof -
  obtain X_val y_val seq_len_val where v: "val_data p = (X_val, y_val, seq_len_val)"
    by (cases "val_data p")
  from assms(1) v have t: "train_and_return_LSTM env (sweep_kwargs p c) = Inr m"
    by (auto simp: outcome_def split: sum.splits)
  from assms(1) v have "evaluate_model env m X_val y_val seq_len_val w'
       = (call (Evaluate m X_val y_val seq_len_val) w', Inr auc)" for w'
    by (auto simp: outcome_def evaluate_model_def Let_def split: sum.splits)
  with t v assms(2) show ?thesis
    by (simp add: sweep_loop_Cons call_def to_csv_def step_events_def Let_def)
qed


lemma sweep_loop_closed:
  assumes "passes env p path existing new cs"
  shows "\<exists>w'. sweep_loop env p path existing cs new w = (w', Inr (new @ map (new_record env p) cs))
           \<and> calls w' = calls w @ loop_events env p path existing new cs
           \<and> fs w' = (if cs = [] then fs w
                       else (fs w)(path \<mapsto> Csv (concat_df existing
                              (DataFrame (new @ map (new_record env p) cs)))))"
  using assms
proof (induction cs arbitrary: new w)
  case Nil
  then show ?case by simp
next
  case (Cons c cs)
  from Cons.prems obtain m auc where o: "outcome env p c = Inr (m, auc)"
    by (cases "outcome env p c") auto
  then have r: "new_record env p c = result_dict c auc"
    by (simp add: new_record_def)
  from Cons.prems r have ok: "csv_write_ok env path (concat_df existing (DataFrame (new @ [result_dict c auc])))"
    and rest: "passes env p path existing (new @ [result_dict c auc]) cs"
    by simp_all
  let ?df = "concat_df existing (DataFrame (new @ [result_dict c auc]))"
  let ?w = "w\<lparr>calls := calls w @ step_events p path c m ?df, fs := (fs w)(path \<mapsto> Csv ?df)\<rparr>"
  from Cons.IH[OF rest, of ?w] obtain w' where
    run: "sweep_loop env p path existing cs (new @ [result_dict c auc]) ?w
            = (w', Inr ((new @ [result_dict c auc]) @ map (new_record env p) cs))"
    and c: "calls w' = calls ?w @ loop_events env p path existing (new @ [result_dict c auc]) cs"
    and f: "fs w' = (if cs = [] then fs ?w
                     else (fs ?w)(path \<mapsto> Csv (concat_df existing
                            (DataFrame ((new @ [result_dict c auc]) @ map (new_record env p) cs)))))"
    by blast
  have "sweep_loop env p path existing (c # cs) new w
          = (w', Inr (new @ map (new_record env p) (c # cs)))"
    using run by (simp add: sweep_loop_passes[OF o refl] ok r)
  moreover have "calls w' = calls w @ loop_events env p path existing new (c # cs)"
    using c by (simp add: o r)
  moreover have "fs w' = (fs w)(path \<mapsto> Csv (concat_df existing
                            (DataFrame (new @ map (new_record env p) (c # cs)))))"
    using f by (cases cs) (simp_all add: r)
  ultimately show ?case
    by (intro exI[of _ w']) simp
qed

lemma sweep_loop_completes:
  assumes "sweep_loop env p path existing cs new w = (w', Inr r)"
  shows "passes env p path existing new cs"
  using assms
proof (induction cs arbitrary: new w)
  case Nil
  then show ?case by simp
next
  case (Cons c cs)
  show ?case
  proof (cases "outcome env p c")
    case (Inl e)
    from sweep_loop_raises[OF Inl, of path existing cs new w] Cons.prems show ?thesis
      by auto
  next
    case (Inr ma)
    obtain m auc where o: "outcome env p c = Inr (m, auc)"
      using Inr by (cases ma) simp
    then have r: "new_record env p c = result_dict c auc"
      by (simp add: new_record_def)
    note step = sweep_loop_passes[OF o refl, where path = path and existing = existing
        and new = new and rest = cs and w = w]
    from Cons.prems step
    have ok: "csv_write_ok env path (concat_df existing (DataFrame (new @ [result_dict c auc])))"
      by (auto split: if_splits)
    with Cons.prems step
    have "passes env p path existing (new @ [result_dict c auc]) cs"
      by (auto intro: Cons.IH)
    with ok o r show ?thesis by simp
  qed
qed

lemma sweep_loop_halts:
  assumes "passes env p path existing new done" and "outcome env p c = Inl e"
  shows "\<exists>w'. sweep_loop env p path existing (done @ c # rest) new w = (w', Inl e)
          \<and> fs w' = (if done = [] then fs w
                      else (fs w)(path \<mapsto> Csv (concat_df existing
                             (DataFrame (new @ map (new_record env p) done)))))
          \<and> (\<exists>evs. calls w' = calls w @ evs
                \<and> train_calls evs = map (sweep_kwargs p) (done @ [c])
                \<and> prep_calls evs = [])"
  using assms(1)
proof (induction "done" arbitrary: new w)
  case Nil
  from sweep_loop_raises[OF assms(2), of path existing rest new w] show ?case
    by auto
next
  case (Cons d ds)
  from Cons.prems obtain m auc where o: "outcome env p d = Inr (m, auc)"
    by (cases "outcome env p d") auto
  then have r: "new_record env p d = result_dict d auc"
    by (simp add: new_record_def)
  let ?df = "concat_df existing (DataFrame (new @ [result_dict d auc]))"
  let ?w = "w\<lparr>calls := calls w @ step_events p path d m ?df, fs := (fs w)(path \<mapsto> Csv ?df)\<rparr>"
  from Cons.prems r have ok: "csv_write_ok env path ?df"
    and rest: "passes env p path existing (new @ [result_dict d auc]) ds"
    by simp_all
  have st: "train_calls (step_events p path d m ?df) = [sweep_kwargs p d]"
     "prep_calls (step_events p path d m ?df) = []"
    by (simp_all add: step_events_def split: prod.splits)
  from Cons.IH[OF rest, of ?w] obtain w' evs where
    run: "sweep_loop env p path existing (ds @ c # rest) (new @ [result_dict d auc]) ?w = (w', Inl e)"
    and f: "fs w' = (if ds = [] then fs ?w
                     else (fs ?w)(path \<mapsto> Csv (concat_df existing
                            (DataFrame ((new @ [result_dict d auc]) @ map (new_record env p) ds)))))"
    and c: "calls w' = calls ?w @ evs"
    and tr: "train_calls evs = map (sweep_kwargs p) (ds @ [c])" "prep_calls evs = []"
    by blast
  have "calls w' = calls w @ (step_events p path d m ?df @ evs)"
    using c by simp
  moreover have "train_calls (step_events p path d m ?df @ evs) = map (sweep_kwargs p) ((d # ds) @ [c])"
    "prep_calls (step_events p path d m ?df @ evs) = []"
    using st tr by (simp_all add: train_calls_append prep_calls_append)
  ultimately have "\<exists>evs. calls w' = calls w @ evs
                \<and> train_calls evs = map (sweep_kwargs p) ((d # ds) @ [c])
                \<and> prep_calls evs = []"
    by blast
  moreover from f have "fs w' = (fs w)(path \<mapsto> Csv (concat_df existing
                             (DataFrame (new @ map (new_record env p) (d # ds)))))"
    by (cases ds) (simp_all add: r)
  moreover have "sweep_loop env p path existing ((d # ds) @ c # rest) new w = (w', Inl e)"
    using run by (simp add: sweep_loop_passes[OF o refl] ok)
  ultimately show ?case
    by (intro exI[of _ w']) simp
qed

lemma sweep_loop_log:
  assumes "sweep_loop env p path existing cs new w = (w', res)"
  shows "\<exists>evs. calls w' = calls w @ evs
           \<and> prefix (train_calls evs) (map (sweep_kwargs p) cs)
           \<and> prep_calls evs = []
           \<and> evaluates_trained env p (train_calls evs) (evaluate_calls evs)
           \<and> length (train_calls evs) \<le> Suc (length (evaluate_calls evs))"
  using assms
proof (induction cs arbitrary: new w)
  case Nil
  then show ?case by auto
next
  case (Cons c cs)
  show ?case
  proof (cases "outcome env p c")
    case (Inl e)
    from sweep_loop_raises[OF Inl, of path existing cs new w] Cons.prems
    obtain evs where "w' = w\<lparr>calls := calls w @ evs\<rparr>" "train_calls evs = [sweep_kwargs p c]"
      "prep_calls evs = []" "evaluates_trained env p (train_calls evs) (evaluate_calls evs)"
      by auto
    then show ?thesis
      by (intro exI[of _ evs]) simp
  next
    case (Inr ma)
    obtain m auc where o: "outcome env p c = Inr (m, auc)"
      using Inr by (cases ma) simp
    let ?df = "concat_df existing (DataFrame (new @ [result_dict c auc]))"
    let ?st = "step_events p path c m ?df"
    note step = sweep_loop_passes[OF o refl, where path = path and existing = existing
        and new = new and rest = cs and w = w]
    show ?thesis
    proof (cases "csv_write_ok env path ?df")
      case False
      with step Cons.prems have "calls w' = calls w @ ?st"
        by auto
      then show ?thesis
        using outcome_trained[OF o]
        by (intro exI[of _ ?st]) (simp add: step_events_calls)
    next
      case True
      let ?w = "w\<lparr>calls := calls w @ ?st, fs := (fs w)(path \<mapsto> Csv ?df)\<rparr>"
      from True step Cons.prems
      have "sweep_loop env p path existing cs (new @ [result_dict c auc]) ?w = (w', res)"
        by simp
      from Cons.IH[OF this] obtain evs where
        c: "calls w' = calls ?w @ evs"
        and t: "prefix (train_calls evs) (map (sweep_kwargs p) cs)"
        and pc: "prep_calls evs = []"
        and et: "evaluates_trained env p (train_calls evs) (evaluate_calls evs)"
        and le: "length (train_calls evs) \<le> Suc (length (evaluate_calls evs))"
        by blast
      from c have "calls w' = calls w @ (?st @ evs)"
        by simp
      then show ?thesis
        using t pc et le outcome_trained[OF o]
        by (intro exI[of _ "?st @ evs"])
           (simp add: step_events_calls train_calls_append evaluate_calls_append prep_calls_append)
    qed
  qed
qed

lemma loop_events_calls:
  "train_calls (loop_events env p path existing new cs) = map (sweep_kwargs p) cs"
  "prep_calls (loop_events env p path existing new cs) = []"
  "evaluate_calls (loop_events env p path existing new cs)
     = map (\<lambda>c. (fst (projr (outcome env p c)), val_data p)) cs"
  by (induction cs arbitrary: new)
     (simp_all add: step_events_calls train_calls_append evaluate_calls_append prep_calls_append)


section \<open>Loading the store\<close>

lemma load_results_call [simp]: "load_results (call ev w) path = load_results w path"
  by (simp add: load_results_def read_csv_def call_def)

lemma load_results_absent:
  "fs w path = None \<Longrightarrow> load_results w path = Inr (\<lparr>columns = result_columns, rows = []\<rparr>, {})"
  by (simp add: load_results_def)

lemma load_results_Inr:
  assumes "load_results w path = Inr (existing, completed)"
  shows "completed = set (store_keys existing)"
    and "set key_columns \<subseteq> set (columns existing)"
    and "fs w path = None \<and> existing = \<lparr>columns = result_columns, rows = []\<rparr>
         \<or> fs w path = Some (Csv existing)"
  using assms
  by (auto simp: load_results_def read_csv_def select_columns_def itertuples_def store_keys_def
      key_columns_def result_columns_def
      split: if_splits option.splits stored.splits sum.splits)

lemma load_results_Inl:
  "load_results w path = Inl e \<longleftrightarrow>
     fs w path = Some Unparseable \<and> e = ParserError
     \<or> (\<exists>df. fs w path = Some (Csv df) \<and> \<not> set key_columns \<subseteq> set (columns df) \<and> e = KeyError)"
  by (auto simp: load_results_def read_csv_def select_columns_def
      split: if_splits option.splits stored.splits sum.splits)

section \<open>Python equality on combinations\<close>

lemma py_eq_sym: "py_eq a b \<Longrightarrow> py_eq b a"
  by (cases a; cases b) (auto split: if_splits)

lemma py_tuple_eq_sym: "py_tuple_eq s t \<Longrightarrow> py_tuple_eq t s"
  unfolding py_tuple_eq_def
  by (induction s t rule: list_all2_induct) (auto intro: py_eq_sym)

lemma py_tuple_eq_combinations [simp]: "py_tuple_eq (py_tuple c) (py_tuple d) \<longleftrightarrow> c = d"
  by (cases c; cases d) (auto simp: py_tuple_eq_def)

lemma py_in_py_tuple: "py_tuple c \<in> S \<Longrightarrow> py_in (py_tuple c) S"
  unfolding py_in_def by (rule bexI[of _ "py_tuple c"]) simp_all

section \<open>One invocation of the sweep\<close>

lemma run_hyper_prep_raises:
  assumes "full_prep env dataset_name logname max_prefix_len False ''case:gender'' = Inl e"
  shows "run_hyper env dataset_name logname max_prefix_len addendum w
           = (call (FullPrep dataset_name logname max_prefix_len False ''case:gender'') w, Inl e)"
  using assms by (simp add: run_hyper_def Let_def)

lemma run_hyper_load_raises:
  assumes "full_prep env dataset_name logname max_prefix_len False ''case:gender'' = Inr p"
    and "load_results w (results_path_of logname addendum) = Inl e"
  shows "run_hyper env dataset_name logname max_prefix_len addendum w
           = (call (FullPrep dataset_name logname max_prefix_len False ''case:gender'') w, Inl e)"
  using assms by (simp add: run_hyper_def Let_def)

lemma run_hyper_loop:
  assumes "full_prep env dataset_name logname max_prefix_len False ''case:gender'' = Inr p"
    and "load_results w (results_path_of logname addendum) = Inr (existing, completed)"
  shows "run_hyper env dataset_name logname max_prefix_len addendum w =
          (case sweep_loop env p (results_path_of logname addendum) existing (combinations_to_run completed) []
                  (call (FullPrep dataset_name logname max_prefix_len False ''case:gender'') w) of
             (w2, Inl e) \<Rightarrow> (w2, Inl e)
           | (w2, Inr new_results) \<Rightarrow>
               (case to_csv env (concat_df existing (DataFrame new_results))
                       (results_path_of logname addendum) w2 of
                  (w3, Inl e) \<Rightarrow> (w3, Inl e)
                | (w3, Inr u) \<Rightarrow> (w3, Inr (concat_df existing (DataFrame new_results)))))"
  using assms by (simp add: run_hyper_def Let_def)


lemma to_csv_cases:
  "to_csv env df path w =
     (if csv_write_ok env path df
      then (w\<lparr>calls := calls w @ [ToCsv path df], fs := (fs w)(path \<mapsto> Csv df)\<rparr>, Inr ())
      else (w\<lparr>calls := calls w @ [ToCsv path df]\<rparr>, Inl OSError))"
  by (simp add: to_csv_def call_def Let_def)

lemma run_hyper_returns:
  assumes prep: "full_prep env dataset_name logname max_prefix_len False ''case:gender'' = Inr p"
    and load: "load_results w (results_path_of logname addendum) = Inr (existing, completed)"
    and pass: "passes env p (results_path_of logname addendum) existing []
                 (combinations_to_run completed)"
    and r: "r = concat_df existing
                  (DataFrame (map (new_record env p) (combinations_to_run completed)))"
    and ok: "csv_write_ok env (results_path_of logname addendum) r"
  shows "\<exists>w'. run_hyper env dataset_name logname max_prefix_len addendum w = (w', Inr r)
           \<and> calls w' = calls w
                @ FullPrep dataset_name logname max_prefix_len False ''case:gender''
                # loop_events env p (results_path_of logname addendum) existing []
                    (combinations_to_run completed)
                @ [ToCsv (results_path_of logname addendum) r]
           \<and> fs w' = (fs w)(results_path_of logname addendum \<mapsto> Csv r)"
proof -
  let ?path = "results_path_of logname addendum"
  let ?w1 = "call (FullPrep dataset_name logname max_prefix_len False ''case:gender'') w"
  from sweep_loop_closed[OF pass, of ?w1] obtain w2 where
    loop: "sweep_loop env p ?path existing (combinations_to_run completed) [] ?w1
             = (w2, Inr (map (new_record env p) (combinations_to_run completed)))"
    and c: "calls w2 = calls ?w1 @ loop_events env p ?path existing [] (combinations_to_run completed)"
    and f: "fs w2 = (if combinations_to_run completed = [] then fs ?w1
                     else (fs ?w1)(?path \<mapsto> Csv r))"
    unfolding r by auto
  let ?w3 = "w2\<lparr>calls := calls w2 @ [ToCsv ?path r], fs := (fs w2)(?path \<mapsto> Csv r)\<rparr>"
  have "run_hyper env dataset_name logname max_prefix_len addendum w = (?w3, Inr r)"
    using ok by (simp add: run_hyper_loop[OF prep load] loop to_csv_cases r)
  moreover have "calls ?w3 = calls w
                @ FullPrep dataset_name logname max_prefix_len False ''case:gender''
                # loop_events env p ?path existing [] (combinations_to_run completed)
                @ [ToCsv ?path r]"
    using c by (simp add: call_def)
  moreover have "fs ?w3 = (fs w)(?path \<mapsto> Csv r)"
    using f by (simp add: call_def)
  ultimately show ?thesis
    by (intro exI[of _ ?w3]) simp
qed

lemma run_hyper_completes:
  assumes run: "run_hyper env dataset_name logname max_prefix_len addendum w = (w', Inr r)"
    and prep: "full_prep env dataset_name logname max_prefix_len False ''case:gender'' = Inr p"
    and load: "load_results w (results_path_of logname addendum) = Inr (existing, completed)"
  shows "passes env p (results_path_of logname addendum) existing [] (combinations_to_run completed)"
    and "r = concat_df existing (DataFrame (map (new_record env p) (combinations_to_run completed)))"
    and "csv_write_ok env (results_path_of logname addendum) r"
proof -
  let ?path = "results_path_of logname addendum"
  let ?w1 = "call (FullPrep dataset_name logname max_prefix_len False ''case:gender'') w"
  obtain w2 res2 where
    loop: "sweep_loop env p ?path existing (combinations_to_run completed) [] ?w1 = (w2, res2)"
    by (cases "sweep_loop env p ?path existing (combinations_to_run completed) [] ?w1")
  from run loop obtain new where res2: "res2 = Inr new"
    by (cases res2) (simp_all add: run_hyper_loop[OF prep load])
  from loop res2 show pass: "passes env p ?path existing [] (combinations_to_run completed)"
    by (auto intro: sweep_loop_completes)
  from sweep_loop_closed[OF pass, of ?w1] loop res2
  have new: "new = map (new_record env p) (combinations_to_run completed)"
    by auto
  from run loop res2 new
  show "r = concat_df existing (DataFrame (map (new_record env p) (combinations_to_run completed)))"
    by (auto simp: run_hyper_loop[OF prep load] to_csv_cases split: if_splits)
  with run loop res2 new show "csv_write_ok env ?path r"
    by (auto simp: run_hyper_loop[OF prep load] to_csv_cases split: if_splits)
qed

lemma run_hyper_halts:
  assumes prep: "full_prep env dataset_name logname max_prefix_len False ''case:gender'' = Inr p"
    and load: "load_results w (results_path_of logname addendum) = Inr (existing, completed)"
    and split: "combinations_to_run completed = done @ c # rest"
    and pass: "passes env p (results_path_of logname addendum) existing [] done"
    and raise: "outcome env p c = Inl e"
  shows "\<exists>w'. run_hyper env dataset_name logname max_prefix_len addendum w = (w', Inl e)
          \<and> fs w' = (if done = [] then fs w
                      else (fs w)(results_path_of logname addendum \<mapsto> Csv (concat_df existing
                             (DataFrame (map (new_record env p) done)))))
          \<and> (\<exists>evs. calls w' = calls w
                      @ FullPrep dataset_name logname max_prefix_len False ''case:gender'' # evs
                \<and> train_calls evs = map (sweep_kwargs p) (done @ [c])
                \<and> prep_calls evs = [])"
proof -
  let ?path = "results_path_of logname addendum"
  let ?w1 = "call (FullPrep dataset_name logname max_prefix_len False ''case:gender'') w"
  from sweep_loop_halts[OF pass raise, of rest ?w1] obtain w' evs where
    loop: "sweep_loop env p ?path existing (done @ c # rest) [] ?w1 = (w', Inl e)"
    and f: "fs w' = (if done = [] then fs ?w1
                     else (fs ?w1)(?path \<mapsto> Csv (concat_df existing
                            (DataFrame ([] @ map (new_record env p) done)))))"
    and c: "calls w' = calls ?w1 @ evs"
    and t: "train_calls evs = map (sweep_kwargs p) (done @ [c])" "prep_calls evs = []"
    by blast
  have "run_hyper env dataset_name logname max_prefix_len addendum w = (w', Inl e)"
    by (simp add: run_hyper_loop[OF prep load] split loop)
  moreover from f have "fs w' = (if done = [] then fs w
                      else (fs w)(?path \<mapsto> Csv (concat_df existing
                             (DataFrame (map (new_record env p) done)))))"
    by (simp add: call_def)
  moreover from c t have "\<exists>evs. calls w' = calls w
                      @ FullPrep dataset_name logname max_prefix_len False ''case:gender'' # evs
                \<and> train_calls evs = map (sweep_kwargs p) (done @ [c])
                \<and> prep_calls evs = []"
    by (intro exI[of _ evs]) (simp add: call_def)
  ultimately show ?thesis
    by (intro exI[of _ w']) simp
qed

lemma run_hyper_log:
  assumes run: "run_hyper env dataset_name logname max_prefix_len addendum w = (w', res)"
  shows "\<exists>evs. calls w' = calls w
                  @ FullPrep dataset_name logname max_prefix_len False ''case:gender'' # evs
           \<and> prep_calls evs = []
           \<and> (\<forall>p existing completed.
                 full_prep env dataset_name logname max_prefix_len False ''case:gender'' = Inr p
                 \<and> load_results w (results_path_of logname addendum) = Inr (existing, completed)
                 \<longrightarrow> prefix (train_calls evs) (map (sweep_kwargs p) (combinations_to_run completed))
                   \<and> evaluates_trained env p (train_calls evs) (evaluate_calls evs)
                   \<and> length (train_calls evs) \<le> Suc (length (evaluate_calls evs)))
           \<and> ((\<exists>e. full_prep env dataset_name logname max_prefix_len False ''case:gender'' = Inl e)
                \<or> (\<exists>e. load_results w (results_path_of logname addendum) = Inl e)
                \<longrightarrow> evs = [])"
proof (cases "full_prep env dataset_name logname max_prefix_len False ''case:gender''")
  case (Inl e)
  from run run_hyper_prep_raises[OF Inl, of addendum w] show ?thesis
    by (intro exI[of _ "[]"]) (auto simp: call_def Inl)
next
  case (Inr p)
  let ?path = "results_path_of logname addendum"
  let ?w1 = "call (FullPrep dataset_name logname max_prefix_len False ''case:gender'') w"
  show ?thesis
  proof (cases "load_results w ?path")
    case (Inl e)
    from run run_hyper_load_raises[OF Inr Inl] show ?thesis
      by (intro exI[of _ "[]"]) (auto simp: call_def Inl Inr)
  next
    case load: (Inr ec)
    obtain existing completed where ec: "ec = (existing, completed)" by (cases ec)
    note load = load[unfolded ec]
    obtain w2 res2 where
      loop: "sweep_loop env p ?path existing (combinations_to_run completed) [] ?w1 = (w2, res2)"
      by (cases "sweep_loop env p ?path existing (combinations_to_run completed) [] ?w1")
    from sweep_loop_log[OF loop] obtain evs where
      c: "calls w2 = calls ?w1 @ evs"
      and t: "prefix (train_calls evs) (map (sweep_kwargs p) (combinations_to_run completed))"
         "prep_calls evs = []" "evaluates_trained env p (train_calls evs) (evaluate_calls evs)"
         "length (train_calls evs) \<le> Suc (length (evaluate_calls evs))"
      by blast
    show ?thesis
    proof (cases res2)
      case (Inl e)
      with run loop have "w' = w2"
        by (simp add: run_hyper_loop[OF Inr load])
      with c t show ?thesis
        by (intro exI[of _ evs]) (simp add: call_def Inr load)
    next
      case new: (Inr new)
      let ?r = "concat_df existing (DataFrame new)"
      from run loop new have "calls w' = calls w2 @ [ToCsv ?path ?r]"
        by (auto simp: run_hyper_loop[OF Inr load] to_csv_cases split: if_splits)
      with c have "calls w' = calls w
          @ FullPrep dataset_name logname max_prefix_len False ''case:gender'' # (evs @ [ToCsv ?path ?r])"
        by (simp add: call_def)
      moreover from loop new have "train_calls evs = map (sweep_kwargs p) (combinations_to_run completed)"
        using sweep_loop_closed[OF sweep_loop_completes, of env p ?path existing
            "combinations_to_run completed" "[]" ?w1 w2 new ?w1] c
        by (simp add: loop_events_calls)
      ultimately show ?thesis
        using t
        by (intro exI[of _ "evs @ [ToCsv ?path ?r]"])
           (simp add: Inr load train_calls_append evaluate_calls_append prep_calls_append)
    qed
  qed
qed

section \<open>The combination enumerator\<close>

lemmas grid_defs = hyperparameter_combinations_def num_layers_lst_def bidirectional_lst_def
  LSTM_size_lst_def batch_size_lst_def learning_rate_lst_def dropout_lst_def

lemma length_combinations: "length hyperparameter_combinations = 144"
  by (simp add: grid_defs)

lemma distinct_combinations: "distinct hyperparameter_combinations"
  by (simp add: grid_defs)

lemma set_combinations:
  "set hyperparameter_combinations =
     set num_layers_lst \<times> set bidirectional_lst \<times> set LSTM_size_lst \<times> set batch_size_lst
       \<times> set learning_rate_lst \<times> set dropout_lst"
  unfolding hyperparameter_combinations_def by (auto simp: image_iff)

lemma nth_combinations:
  "\<forall>i<144. hyperparameter_combinations ! i =
        (num_layers_lst ! (i div 72), bidirectional_lst ! (i div 36 mod 2),
         LSTM_size_lst ! (i div 12 mod 3), batch_size_lst ! (i div 4 mod 3),
         learning_rate_lst ! (i div 2 mod 2), dropout_lst ! (i mod 2))"
proof -
  have "\<forall>i\<in>set [0..<144]. hyperparameter_combinations ! i =
        (num_layers_lst ! (i div 72), bidirectional_lst ! (i div 36 mod 2),
         LSTM_size_lst ! (i div 12 mod 3), batch_size_lst ! (i div 4 mod 3),
         learning_rate_lst ! (i div 2 mod 2), dropout_lst ! (i mod 2))"
    by code_simp
  then show ?thesis by simp
qed

text \<open>
  Claim C4. On the six fixed axes the enumerator yields 2 * 2 * 3 * 3 * 2 * 2 = 144
  tuples, all different; they are exactly the elements of the cross product of the axes;
  and they come in the order of nested loops with the first axis outermost and the last
  (dropout) varying fastest: the tuple at position \<open>i\<close> takes its dropout at index
  \<open>i mod 2\<close>, its learning rate at \<open>i div 2 mod 2\<close>, and so on up to its number of
  layers at \<open>i div 72\<close>. The list is a constant: it depends on no argument of
  \<^verbatim>\<open>run_hyper\<close> and on no state, so every invocation enumerates the same sequence.
\<close>

theorem enumerator_yields_product:
  "num_layers_lst = [1, 2] \<and> bidirectional_lst = [False, True]
   \<and> LSTM_size_lst = [16, 32, 64] \<and> batch_size_lst = [128, 256, 512]
   \<and> learning_rate_lst = [1 / 10000, 1 / 1000] \<and> dropout_lst = [2 / 10, 4 / 10]
   \<and> length hyperparameter_combinations = 2 * 2 * 3 * 3 * 2 * 2
   \<and> length hyperparameter_combinations = 144
   \<and> distinct hyperparameter_combinations
   \<and> set hyperparameter_combinations =
       set num_layers_lst \<times> set bidirectional_lst \<times> set LSTM_size_lst \<times> set batch_size_lst
         \<times> set learning_rate_lst \<times> set dropout_lst
   \<and> (\<forall>i<144. hyperparameter_combinations ! i =
        (num_layers_lst ! (i div 72), bidirectional_lst ! (i div 36 mod 2),
         LSTM_size_lst ! (i div 12 mod 3), batch_size_lst ! (i div 4 mod 3),
         learning_rate_lst ! (i div 2 mod 2), dropout_lst ! (i mod 2)))"
  using length_combinations distinct_combinations set_combinations nth_combinations
  by (simp add: num_layers_lst_def bidirectional_lst_def LSTM_size_lst_def batch_size_lst_def
      learning_rate_lst_def dropout_lst_def)

theorem enumerator_yields_product_witness:
  "hyperparameter_combinations ! 0 = (1, False, 16, 128, 1 / 10000, 2 / 10)
   \<and> hyperparameter_combinations ! 1 = (1, False, 16, 128, 1 / 10000, 4 / 10)
   \<and> hyperparameter_combinations ! 2 = (1, False, 16, 128, 1 / 1000, 2 / 10)
   \<and> hyperparameter_combinations ! 143 = (2, True, 64, 512, 1 / 1000, 4 / 10)"
proof -
  from enumerator_yields_product
  have axes: "num_layers_lst = [1, 2]" "bidirectional_lst = [False, True]"
      "LSTM_size_lst = [16, 32, 64]" "batch_size_lst = [128, 256, 512]"
      "learning_rate_lst = [1 / 10000, 1 / 1000]" "dropout_lst = [2 / 10, 4 / 10]"
    and nth: "\<And>i. i < 144 \<Longrightarrow> hyperparameter_combinations ! i =
        (num_layers_lst ! (i div 72), bidirectional_lst ! (i div 36 mod 2),
         LSTM_size_lst ! (i div 12 mod 3), batch_size_lst ! (i div 4 mod 3),
         learning_rate_lst ! (i div 2 mod 2), dropout_lst ! (i mod 2))"
    by blast+
  show ?thesis
    by (simp add: nth axes)
qed

section \<open>Calls of a run and combinations left to run\<close>

lemma new_calls_append: "calls w' = calls w @ evs \<Longrightarrow> new_calls w w' = evs"
  by (simp add: new_calls_def)

lemma kwargs_combination_sweep [simp]: "kwargs_combination (sweep_kwargs p c) = c"
  by (cases p rule: prep_cases; cases c) (simp add: kwargs_combination_def sweep_kwargs_def)

lemma combinations_to_run_keys:
  "combinations_to_run (set ks) =
     filter (\<lambda>c. \<forall>k\<in>set ks. \<not> list_all2 py_eq (py_tuple c) k) hyperparameter_combinations"
  by (simp add: combinations_to_run_def py_in_def py_tuple_eq_def)

lemma combinations_to_run_empty [simp]: "combinations_to_run {} = hyperparameter_combinations"
  by (simp add: combinations_to_run_def py_in_def)

section \<open>The example collaborators\<close>

lemma outcome_env_ok: "outcome env_ok prep_example c = Inr (nat (fst (snd (snd c))), 1 / 2)"
  by (cases c) (simp add: outcome_def env_ok_def prep_example_def val_data_def sweep_kwargs_def)

lemma passes_env_ok: "passes env_ok prep_example path existing new cs"
  by (induction cs arbitrary: new) (simp_all add: outcome_env_ok, simp add: env_ok_def)

lemma full_prep_env_ok: "full_prep env_ok filename logname n b col = Inr prep_example"
  by (simp add: env_ok_def)

lemma csv_write_env_ok: "csv_write_ok env_ok path df"
  by (simp add: env_ok_def)

lemma load_world_empty:
  "load_results world_empty path = Inr (\<lparr>columns = result_columns, rows = []\<rparr>, {})"
  by (simp add: load_results_absent world_empty_def)

lemma load_world_seeded:
  "load_results world_seeded (results_path_of ''lending'' ''high'')
     = Inr (\<lparr>columns = result_columns, rows = [seeded_row]\<rparr>,
            {py_tuple (1, False, 16, 128, 1 / 10000, 2 / 10)})"
  by (simp add: load_results_def world_seeded_def read_csv_def select_columns_def itertuples_def
      key_columns_def result_columns_def reindex_def cell_at_def seeded_row_def)

lemma to_run_seeded:
  "combinations_to_run {py_tuple (1, False, 16, 128, 1 / 10000, 2 / 10)} = tl hyperparameter_combinations"
  by (simp add: combinations_to_run_def py_in_def py_tuple_eq_def grid_defs)

section \<open>Runs in which every combination passes\<close>

lemma passes_last_write:
  assumes "passes env p path existing new cs" and "cs \<noteq> []"
  shows "csv_write_ok env path (concat_df existing (DataFrame (new @ map (new_record env p) cs)))"
  using assms
proof (induction cs arbitrary: new)
  case Nil
  then show ?case by simp
next
  case (Cons c cs)
  show ?case
  proof (cases cs)
    case Nil
    with Cons.prems show ?thesis by simp
  next
    case (Cons c' cs')
    with Cons.prems Cons.IH[of "new @ [new_record env p c]"] show ?thesis by simp
  qed
qed


lemma run_hyper_finishes:
  assumes prep: "full_prep env dataset_name logname max_prefix_len False ''case:gender'' = Inr p"
    and load: "load_results w (results_path_of logname addendum) = Inr (existing, completed)"
    and pass: "passes env p (results_path_of logname addendum) existing []
                 (combinations_to_run completed)"
    and r: "r = concat_df existing
                  (DataFrame (map (new_record env p) (combinations_to_run completed)))"
  shows "\<exists>w'. run_hyper env dataset_name logname max_prefix_len addendum w
                 = (w', if csv_write_ok env (results_path_of logname addendum) r
                        then Inr r else Inl OSError)
           \<and> new_calls w w' =
                FullPrep dataset_name logname max_prefix_len False ''case:gender''
                # loop_events env p (results_path_of logname addendum) existing []
                    (combinations_to_run completed)
                @ [ToCsv (results_path_of logname addendum) r]
           \<and> fs w' = (if csv_write_ok env (results_path_of logname addendum) r
                       then (fs w)(results_path_of logname addendum \<mapsto> Csv r) else fs w)"
proof (cases "csv_write_ok env (results_path_of logname addendum) r")
  case True
  from run_hyper_returns[OF prep load pass r True] True show ?thesis
    by (auto simp: new_calls_def)
next
  case False
  let ?path = "results_path_of logname addendum"
  let ?w1 = "call (FullPrep dataset_name logname max_prefix_len False ''case:gender'') w"
  from False passes_last_write[OF pass] have e: "combinations_to_run completed = []"
    unfolding r by auto
  from sweep_loop_closed[OF pass, of ?w1] obtain w2 where
    loop: "sweep_loop env p ?path existing (combinations_to_run completed) [] ?w1
             = (w2, Inr (map (new_record env p) (combinations_to_run completed)))"
    and c: "calls w2 = calls ?w1 @ loop_events env p ?path existing [] (combinations_to_run completed)"
    and f: "fs w2 = fs ?w1"
    using e by auto
  let ?w3 = "w2\<lparr>calls := calls w2 @ [ToCsv ?path r]\<rparr>"
  have "run_hyper env dataset_name logname max_prefix_len addendum w = (?w3, Inl OSError)"
    using False by (simp add: run_hyper_loop[OF prep load] loop to_csv_cases r)
  moreover have "new_calls w ?w3 =
                FullPrep dataset_name logname max_prefix_len False ''case:gender''
                # loop_events env p ?path existing [] (combinations_to_run completed)
                @ [ToCsv ?path r]"
    using c by (simp add: call_def new_calls_def)
  moreover have "fs ?w3 = fs w"
    using f by (simp add: call_def)
  ultimately show ?thesis
    using False by (intro exI[of _ ?w3]) simp
qed

lemma run_hyper_train_calls:
  assumes run: "run_hyper env dataset_name logname max_prefix_len addendum w = (w', res)"
    and prep: "full_prep env dataset_name logname max_prefix_len False ''case:gender'' = Inr p"
  shows "\<forall>kwargs\<in>set (train_calls (new_calls w w')).
           \<exists>c\<in>set hyperparameter_combinations. kwargs = sweep_kwargs p c"
proof -
  let ?prep = "FullPrep dataset_name logname max_prefix_len False ''case:gender''"
  from run_hyper_log[OF run] obtain evs where
    c: "calls w' = calls w @ ?prep # evs"
    and t: "\<And>existing completed.
              load_results w (results_path_of logname addendum) = Inr (existing, completed)
              \<Longrightarrow> prefix (train_calls evs) (map (sweep_kwargs p) (combinations_to_run completed))"
    and n: "(\<exists>e. load_results w (results_path_of logname addendum) = Inl e) \<Longrightarrow> evs = []"
    using prep by blast
  from c have nc: "train_calls (new_calls w w') = train_calls evs"
    by (simp add: new_calls_append)
  show ?thesis
  proof (cases "load_results w (results_path_of logname addendum)")
    case (Inl e)
    with n have "evs = []" by blast
    with nc show ?thesis by simp
  next
    case (Inr ec)
    obtain existing completed where "ec = (existing, completed)" by (cases ec)
    with Inr t have "prefix (train_calls evs) (map (sweep_kwargs p) (combinations_to_run completed))"
      by simp
    then have "set (train_calls evs) \<subseteq> sweep_kwargs p ` set (combinations_to_run completed)"
      using set_mono_prefix by fastforce
    also have "\<dots> \<subseteq> sweep_kwargs p ` set hyperparameter_combinations"
      by (auto simp: combinations_to_run_def)
    finally show ?thesis
      using nc by auto
  qed
qed

section \<open>Runs with the example collaborators\<close>

lemma run_env_ok:
  assumes load: "load_results w (results_path_of logname addendum) = Inr (existing, completed)"
    and r: "r = concat_df existing
                  (DataFrame (map (new_record env_ok prep_example) (combinations_to_run completed)))"
  shows "\<exists>w'. run_hyper env_ok dataset_name logname max_prefix_len addendum w = (w', Inr r)
           \<and> calls w' = calls w
                @ FullPrep dataset_name logname max_prefix_len False ''case:gender''
                # loop_events env_ok prep_example (results_path_of logname addendum) existing []
                    (combinations_to_run completed)
                @ [ToCsv (results_path_of logname addendum) r]
           \<and> fs w' = (fs w)(results_path_of logname addendum \<mapsto> Csv r)"
  by (rule run_hyper_returns[OF full_prep_env_ok load passes_env_ok r csv_write_env_ok])

lemma run_env_ok_empty_train_calls:
  "train_calls (new_calls world_empty
      (fst (run_hyper env_ok dataset_name logname max_prefix_len addendum world_empty)))
   = map (sweep_kwargs prep_example) hyperparameter_combinations"
proof -
  from run_env_ok[OF load_world_empty refl, where logname = logname and addendum = addendum
      and dataset_name = dataset_name and max_prefix_len = max_prefix_len]
  obtain w' where
    "run_hyper env_ok dataset_name logname max_prefix_len addendum world_empty
       = (w', Inr (concat_df \<lparr>columns = result_columns, rows = []\<rparr>
            (DataFrame (map (new_record env_ok prep_example) (combinations_to_run {})))))"
    and "calls w' = calls world_empty
                @ FullPrep dataset_name logname max_prefix_len False ''case:gender''
                # loop_events env_ok prep_example (results_path_of logname addendum)
                    \<lparr>columns = result_columns, rows = []\<rparr> [] (combinations_to_run {})
                @ [ToCsv (results_path_of logname addendum)
                    (concat_df \<lparr>columns = result_columns, rows = []\<rparr>
            (DataFrame (map (new_record env_ok prep_example) (combinations_to_run {}))))]"
    by blast
  then show ?thesis
    by (simp add: new_calls_def train_calls_append loop_events_calls)
qed


lemma load_results_present:
  assumes "fs w path = Some (Csv df)" and "set key_columns \<subseteq> set (columns df)"
  shows "load_results w path = Inr (df, set (store_keys df))"
  using assms
  by (simp add: load_results_def read_csv_def select_columns_def itertuples_def store_keys_def)




section \<open>The frames that are flushed\<close>

lemma new_record_fun: "new_record env p = (\<lambda>c. result_dict c (snd (projr (outcome env p c))))"
  by (rule ext) (simp add: new_record_def)

lemma store_records_flush:
  "store_records (concat_df existing (DataFrame (map (new_record env p) cs)))
     = store_records existing @ map (\<lambda>c. map snd (new_record env p c)) cs"
  by (simp add: store_records_concat_df)
     (simp add: new_record_fun store_records_DataFrame)

lemma store_keys_flush:
  "store_keys (concat_df existing (DataFrame (map (new_record env p) cs)))
     = store_keys existing @ map py_tuple cs"
  by (simp add: store_keys_concat_df)
     (simp add: new_record_fun store_keys_DataFrame)

lemma concat_df_result_frame:
  assumes c: "columns existing = result_columns"
    and l: "\<forall>row\<in>set (rows existing). length row = length result_columns"
  shows "concat_df existing (DataFrame (map (new_record env p) cs))
           = \<lparr>columns = result_columns,
              rows = rows existing @ map (\<lambda>c. map snd (new_record env p c)) cs\<rparr>"
proof -
  let ?ds = "map (\<lambda>c. result_dict c (snd (projr (outcome env p c)))) cs"
  have k: "\<forall>d\<in>set ?ds. map fst d = result_columns"
    by (auto simp: result_dict_keys)
  have d: "distinct result_columns"
    by (simp add: result_columns_def)
  have cols: "columns (DataFrame ?ds) = (if cs = [] then [] else result_columns)"
    using columns_DataFrame[OF k] by simp
  have rws: "rows (DataFrame ?ds) = map (map snd) ?ds"
    by (rule rows_DataFrame[OF k d])
  have old: "map (reindex result_columns result_columns) (rows existing) = rows existing"
    using l by (simp add: map_idI reindex_self[OF d])
  have "reindex result_columns result_columns (map snd (result_dict c a)) = map snd (result_dict c a)"
    for c a
    using result_dict_keys[of c a]
    by (intro reindex_self[OF d]) (metis length_map)
  then have new: "map (reindex result_columns result_columns) (map (map snd) ?ds) = map (map snd) ?ds"
    by (simp add: comp_def)
  show ?thesis
  proof (cases cs)
    case Nil
    then show ?thesis
      using old by (simp add: concat_df_def Let_def c DataFrame_def)
  next
    case (Cons c' cs')
    then have "cs \<noteq> []" by simp
    with cols have cols': "columns (DataFrame ?ds) = result_columns" by simp
    show ?thesis
      unfolding new_record_fun concat_df_def Let_def c cols' rws
      using old new by (simp add: comp_def)
  qed
qed


section \<open>More facts about the example inputs\<close>



lemma outcome_env_raising:
  "outcome env_raising prep_example (nl, bi, ls, bs, lr, dr)
     = (if lr = 1 / 1000 then Inl (Raised ''loss is nan'') else Inr (nat ls, 1 / 2))"
  by (simp add: outcome_def env_raising_def env_ok_def prep_example_def val_data_def sweep_kwargs_def)

lemma full_prep_env_raising: "full_prep env_raising filename logname n b col = Inr prep_example"
  by (simp add: env_raising_def env_ok_def)

lemma take_3_combinations:
  "take 3 hyperparameter_combinations
     = [(1, False, 16, 128, 1 / 10000, 2 / 10), (1, False, 16, 128, 1 / 10000, 4 / 10),
        (1, False, 16, 128, 1 / 1000, 2 / 10)]"
  by (simp add: grid_defs)

lemma load_world_nocol:
  "load_results world_nocol (results_path_of ''lending'' ''high'') = Inl KeyError"
  by (simp add: load_results_Inl world_nocol_def key_columns_def)

section \<open>Coverage of the grid and duplicates\<close>

lemma py_in_mono: "py_in t S \<Longrightarrow> S \<subseteq> T \<Longrightarrow> py_in t T"
  unfolding py_in_def by blast


lemma grid_covered_after_flush:
  assumes "c \<in> set hyperparameter_combinations"
  shows "py_in (py_tuple c) (set (store_keys existing @ map py_tuple
           (combinations_to_run (set (store_keys existing)))))"
proof (cases "py_in (py_tuple c) (set (store_keys existing))")
  case True
  then show ?thesis
    by (rule py_in_mono) auto
next
  case False
  with assms have "c \<in> set (combinations_to_run (set (store_keys existing)))"
    by (simp add: combinations_to_run_def del: py_tuple.simps)
  then show ?thesis
    by (intro py_in_py_tuple) (simp del: py_tuple.simps)
qed

lemma run_hyper_Inr:
  assumes "run_hyper env dataset_name logname max_prefix_len addendum w = (w', Inr r)"
  obtains p existing completed where
    "full_prep env dataset_name logname max_prefix_len False ''case:gender'' = Inr p"
    "load_results w (results_path_of logname addendum) = Inr (existing, completed)"
proof (cases "full_prep env dataset_name logname max_prefix_len False ''case:gender''")
  case (Inl e)
  from run_hyper_prep_raises[OF Inl, of addendum w] assms show ?thesis
    by simp
next
  case (Inr p)
  show ?thesis
  proof (cases "load_results w (results_path_of logname addendum)")
    case (Inl e)
    from run_hyper_load_raises[OF Inr Inl] assms show ?thesis
      by simp
  next
    case load: (Inr ec)
    then show ?thesis
      using Inr that by (cases ec) auto
  qed
qed

lemma no_dup_keys_append:
  "no_dup_keys (xs @ ys) \<longleftrightarrow>
     no_dup_keys xs \<and> no_dup_keys ys \<and> (\<forall>x\<in>set xs. \<forall>y\<in>set ys. \<not> py_tuple_eq x y)"
  by (induction xs) auto

lemma no_dup_keys_py_tuple: "no_dup_keys (map py_tuple cs) \<longleftrightarrow> distinct cs"
  by (induction cs) (auto simp del: py_tuple.simps)

lemma distinct_combinations_to_run: "distinct (combinations_to_run S)"
  by (simp add: combinations_to_run_def distinct_combinations)

lemma no_dup_keys_flush:
  assumes "no_dup_keys ks"
  shows "no_dup_keys (ks @ map py_tuple (combinations_to_run (set ks)))"
proof -
  have "\<not> py_tuple_eq k (py_tuple c)"
    if "k \<in> set ks" and "c \<in> set (combinations_to_run (set ks))" for k c
  proof
    assume "py_tuple_eq k (py_tuple c)"
    then have "py_tuple_eq (py_tuple c) k"
      by (rule py_tuple_eq_sym)
    with that(1) have "py_in (py_tuple c) (set ks)"
      unfolding py_in_def by blast
    with that(2) show False
      by (simp add: combinations_to_run_def del: py_tuple.simps)
  qed
  with assms show ?thesis
    by (auto simp: no_dup_keys_append no_dup_keys_py_tuple distinct_combinations_to_run
        simp del: py_tuple.simps)
qed

section \<open>The seeded example stores\<close>

lemma store_keys_seeded:
  "store_keys \<lparr>columns = result_columns, rows = [seeded_row]\<rparr>
     = [py_tuple (1, False, 16, 128, 1 / 10000, 2 / 10)]"
  "store_keys \<lparr>columns = result_columns, rows = [seeded_row, seeded_row]\<rparr>
     = [py_tuple (1, False, 16, 128, 1 / 10000, 2 / 10),
        py_tuple (1, False, 16, 128, 1 / 10000, 2 / 10)]"
  by (simp_all add: store_keys_def reindex_def key_columns_def result_columns_def cell_at_def
      seeded_row_def)

lemma load_world_dup:
  "load_results world_dup (results_path_of ''lending'' ''high'')
     = Inr (\<lparr>columns = result_columns, rows = [seeded_row, seeded_row]\<rparr>,
            set (store_keys \<lparr>columns = result_columns, rows = [seeded_row, seeded_row]\<rparr>))"
  by (rule load_results_present) (simp_all add: world_dup_def key_columns_def result_columns_def)

lemma head_combinations:
  "hyperparameter_combinations = (1, False, 16, 128, 1 / 10000, 2 / 10) # tl hyperparameter_combinations"
  by (simp add: grid_defs)

section \<open>Which combinations are trained\<close>

text \<open>
  Claim C1. In every invocation whose preprocessing succeeds and whose store loads, the
  completed set is the set of six-value key tuples of the stored rows (the metric column
  is not read), and a combination is left to run exactly when no stored key tuple equals
  it elementwise under Python's \<^verbatim>\<open>==\<close>. Training is called on the combinations left
  to run, in the order of the enumeration, up to the first exception; every evaluation
  is of the model the training call at the same position returned; and when the
  invocation returns, training and evaluation were called exactly once for each
  combination left to run and for no other.
\<close>

theorem sweep_trains_exactly_pending:
  assumes run: "run_hyper env dataset_name logname max_prefix_len addendum w = (w', res)"
    and prep: "full_prep env dataset_name logname max_prefix_len False ''case:gender'' = Inr p"
    and load: "load_results w (results_path_of logname addendum) = Inr (existing, completed)"
  shows "completed = set (store_keys existing)
     \<and> combinations_to_run completed =
         filter (\<lambda>c. \<forall>k\<in>set (store_keys existing). \<not> list_all2 py_eq (py_tuple c) k)
           hyperparameter_combinations
     \<and> prefix (map kwargs_combination (train_calls (new_calls w w'))) (combinations_to_run completed)
     \<and> evaluates_trained env p (train_calls (new_calls w w')) (evaluate_calls (new_calls w w'))
     \<and> length (train_calls (new_calls w w')) \<le> Suc (length (evaluate_calls (new_calls w w')))
     \<and> (\<not> isl res \<longrightarrow>
          map kwargs_combination (train_calls (new_calls w w')) = combinations_to_run completed
          \<and> length (evaluate_calls (new_calls w w')) = length (combinations_to_run completed))"
proof -
  let ?path = "results_path_of logname addendum"
  let ?prep = "FullPrep dataset_name logname max_prefix_len False ''case:gender''"
  let ?cs = "combinations_to_run completed"
  from load_results_Inr(1)[OF load] have keys: "completed = set (store_keys existing)" .
  from run_hyper_log[OF run] prep load obtain evs where
    c: "calls w' = calls w @ ?prep # evs"
    and t: "prefix (train_calls evs) (map (sweep_kwargs p) ?cs)"
    and e: "evaluates_trained env p (train_calls evs) (evaluate_calls evs)"
    and l: "length (train_calls evs) \<le> Suc (length (evaluate_calls evs))"
    by blast
  from c have n: "new_calls w w' = ?prep # evs"
    by (rule new_calls_append)
  from t have "prefix (map kwargs_combination (train_calls evs))
                 (map kwargs_combination (map (sweep_kwargs p) ?cs))"
    by (rule map_mono_prefix)
  then have pre: "prefix (map kwargs_combination (train_calls evs)) ?cs"
    by (simp add: comp_def)
  have whole: "map kwargs_combination (train_calls evs) = ?cs
              \<and> length (evaluate_calls evs) = length ?cs" if "\<not> isl res"
  proof -
    from that obtain r where r: "res = Inr r" by (cases res) auto
    note fin = run_hyper_completes[OF run[unfolded r] prep load]
    from run_hyper_returns[OF prep load fin(1) fin(2) fin(3)] run r
    have "calls w' = calls w @ ?prep # loop_events env p ?path existing [] ?cs @ [ToCsv ?path r]"
      by auto
    with c have "evs = loop_events env p ?path existing [] ?cs @ [ToCsv ?path r]"
      by simp
    then show ?thesis
      by (simp add: train_calls_append evaluate_calls_append loop_events_calls comp_def)
  qed
  from keys pre e l whole show ?thesis
    by (simp add: n combinations_to_run_keys)
qed

theorem sweep_trains_exactly_pending_witness:
  "map kwargs_combination
     (train_calls (new_calls world_seeded
        (fst (run_hyper env_ok ''Datasets/lending_log_high.xes.gz'' ''lending'' 6 ''high''
               world_seeded))))
     = tl hyperparameter_combinations
   \<and> length (evaluate_calls (new_calls world_seeded
        (fst (run_hyper env_ok ''Datasets/lending_log_high.xes.gz'' ''lending'' 6 ''high''
               world_seeded)))) = 143"
proof -
  let ?run = "run_hyper env_ok ''Datasets/lending_log_high.xes.gz'' ''lending'' 6 ''high'' world_seeded"
  let ?r = "concat_df \<lparr>columns = result_columns, rows = [seeded_row]\<rparr>
              (DataFrame (map (new_record env_ok prep_example)
                 (combinations_to_run {py_tuple (1, False, 16, 128, 1 / 10000, 2 / 10)})))"
  from run_hyper_returns[OF full_prep_env_ok load_world_seeded passes_env_ok refl csv_write_env_ok,
      of "''Datasets/lending_log_high.xes.gz''" 6]
  obtain w' where "?run = (w', Inr ?r)"
    by blast
  then have ok: "\<not> isl (snd ?run)"
    by simp
  let ?S = "{py_tuple (1, False, 16, 128, 1 / 10000, 2 / 10)}"
  note claim = sweep_trains_exactly_pending[OF prod.collapse[symmetric] full_prep_env_ok
      load_world_seeded, of "''Datasets/lending_log_high.xes.gz''" 6]
  from claim ok
  have t: "map kwargs_combination (train_calls (new_calls world_seeded (fst ?run)))
             = combinations_to_run ?S"
    and e: "length (evaluate_calls (new_calls world_seeded (fst ?run)))
             = length (combinations_to_run ?S)"
    by blast+
  show ?thesis
    unfolding t e to_run_seeded by (simp add: length_combinations)
qed

section \<open>Preprocessing and the training configuration\<close>

text \<open>
  Claim C8. Whatever an invocation of \<^verbatim>\<open>run_hyper\<close> goes on to do (no combination
  left to run, all of them, an exception on the way), its first call is the one call of
  the preprocessing collaborator, with the arguments of the invocation, and it makes no
  other; and every training call of the invocation receives the training and validation
  data, the vocabulary sizes, the number of numerical features and the resolved maximum
  prefix length that this one call returned.
\<close>

theorem preprocessing_runs_once:
  assumes run: "run_hyper env dataset_name logname max_prefix_len addendum w = (w', res)"
  shows "(\<exists>evs. new_calls w w'
                  = FullPrep dataset_name logname max_prefix_len False ''case:gender'' # evs
              \<and> prep_calls evs = [])
     \<and> prep_calls (new_calls w w')
          = [(dataset_name, logname, max_prefix_len, False, ''case:gender'')]
     \<and> (\<forall>X_train seq_len_train y_train s_train X_val seq_len_val y_val s_val u1 u2 u3 u4
           vocsizes num_numerical_features new_max_prefix_len.
           full_prep env dataset_name logname max_prefix_len False ''case:gender''
             = Inr (X_train, seq_len_train, y_train, s_train, X_val, seq_len_val, y_val, s_val,
                    u1, u2, u3, u4, vocsizes, num_numerical_features, new_max_prefix_len)
           \<longrightarrow> (\<forall>kwargs\<in>set (train_calls (new_calls w w')).
                  kw_X_train kwargs = X_train \<and> kw_seq_len_train kwargs = seq_len_train
                  \<and> kw_y_train kwargs = y_train \<and> kw_s_train kwargs = s_train
                  \<and> kw_X_val kwargs = X_val \<and> kw_seq_len_val kwargs = seq_len_val
                  \<and> kw_y_val kwargs = y_val \<and> kw_s_val kwargs = s_val
                  \<and> kw_vocab_sizes kwargs = vocsizes
                  \<and> kw_num_numerical_features kwargs = num_numerical_features
                  \<and> kw_max_length kwargs = new_max_prefix_len))"
proof -
  let ?prep = "FullPrep dataset_name logname max_prefix_len False ''case:gender''"
  from run_hyper_log[OF run] obtain evs where
    c: "calls w' = calls w @ ?prep # evs" and p: "prep_calls evs = []"
    by blast
  from c have n: "new_calls w w' = ?prep # evs"
    by (rule new_calls_append)
  have "kw_X_train kwargs = X_train \<and> kw_seq_len_train kwargs = seq_len_train
                  \<and> kw_y_train kwargs = y_train \<and> kw_s_train kwargs = s_train
                  \<and> kw_X_val kwargs = X_val \<and> kw_seq_len_val kwargs = seq_len_val
                  \<and> kw_y_val kwargs = y_val \<and> kw_s_val kwargs = s_val
                  \<and> kw_vocab_sizes kwargs = vocsizes
                  \<and> kw_num_numerical_features kwargs = num_numerical_features
                  \<and> kw_max_length kwargs = new_max_prefix_len"
    if prep: "full_prep env dataset_name logname max_prefix_len False ''case:gender''
             = Inr (X_train, seq_len_train, y_train, s_train, X_val, seq_len_val, y_val, s_val,
                    u1, u2, u3, u4, vocsizes, num_numerical_features, new_max_prefix_len)"
      and k: "kwargs \<in> set (train_calls (new_calls w w'))"
    for X_train seq_len_train y_train s_train X_val seq_len_val y_val s_val u1 u2 u3 u4
           vocsizes num_numerical_features new_max_prefix_len kwargs
  proof -
    from run_hyper_train_calls[OF run prep] k obtain comb where
      "kwargs = sweep_kwargs (X_train, seq_len_train, y_train, s_train, X_val, seq_len_val,
          y_val, s_val, u1, u2, u3, u4, vocsizes, num_numerical_features, new_max_prefix_len) comb"
      by blast
    then show ?thesis
      by (cases comb) (simp add: sweep_kwargs_def)
  qed
  with n p show ?thesis
    by simp
qed

theorem preprocessing_runs_once_witness:
  "prep_calls (new_calls world_empty
      (fst (run_hyper env_ok ''Datasets/lending_log_high.xes.gz'' ''lending'' 6 ''high'' world_empty)))
     = [(''Datasets/lending_log_high.xes.gz'', ''lending'', 6, False, ''case:gender'')]
   \<and> length (train_calls (new_calls world_empty
      (fst (run_hyper env_ok ''Datasets/lending_log_high.xes.gz'' ''lending'' 6 ''high'' world_empty))))
     = 144
   \<and> list_all (\<lambda>kwargs. kw_X_train kwargs = 1 \<and> kw_X_val kwargs = 5 \<and> kw_max_length kwargs = 6)
       (train_calls (new_calls world_empty
      (fst (run_hyper env_ok ''Datasets/lending_log_high.xes.gz'' ''lending'' 6 ''high'' world_empty))))"
proof -
  let ?run = "run_hyper env_ok ''Datasets/lending_log_high.xes.gz'' ''lending'' 6 ''high'' world_empty"
  note claim = preprocessing_runs_once[OF prod.collapse[symmetric],
      where env = env_ok and dataset_name = "''Datasets/lending_log_high.xes.gz''"
        and logname = "''lending''" and max_prefix_len = 6 and addendum = "''high''"
        and w = world_empty]
  have prep: "full_prep env_ok ''Datasets/lending_log_high.xes.gz'' ''lending'' 6 False ''case:gender''
           = Inr (1, 2, 3, 4, 5, 6, 7, 8, 9, 10, 11, 12, [4, 7], 3, 6)"
    by (simp add: full_prep_env_ok prep_example_def)
  from claim have "prep_calls (new_calls world_empty (fst ?run))
     = [(''Datasets/lending_log_high.xes.gz'', ''lending'', 6, False, ''case:gender'')]"
    by blast
  moreover have "length (train_calls (new_calls world_empty (fst ?run))) = 144"
    by (simp add: run_env_ok_empty_train_calls length_combinations)
  moreover from claim prep have "\<forall>kwargs\<in>set (train_calls (new_calls world_empty (fst ?run))).
      kw_X_train kwargs = 1 \<and> kw_X_val kwargs = 5 \<and> kw_max_length kwargs = 6"
    by blast
  ultimately show ?thesis
    by (simp add: list_all_iff)
qed

text \<open>
  Claim C10. Every training call of an invocation has the loss function
  \<^verbatim>\<open>'BCE'\<close>, at most 300 epochs, patience 20, no history, the maximum length that
  preprocessing resolved, and the prepared data; only the six swept values differ from
  call to call, and they form a combination of the grid.
\<close>

theorem training_configuration_fixed:
  assumes run: "run_hyper env dataset_name logname max_prefix_len addendum w = (w', res)"
    and prep: "full_prep env dataset_name logname max_prefix_len False ''case:gender''
             = Inr (X_train, seq_len_train, y_train, s_train, X_val, seq_len_val, y_val, s_val,
                    u1, u2, u3, u4, vocsizes, num_numerical_features, new_max_prefix_len)"
  shows "\<forall>kwargs\<in>set (train_calls (new_calls w w')).
           kw_loss_function kwargs = ''BCE'' \<and> kw_max_epochs kwargs = 300
           \<and> kw_patience kwargs = 20 \<and> kw_get_history kwargs = False
           \<and> kw_max_length kwargs = new_max_prefix_len
           \<and> kw_X_train kwargs = X_train \<and> kw_seq_len_train kwargs = seq_len_train
           \<and> kw_y_train kwargs = y_train \<and> kw_s_train kwargs = s_train
           \<and> kw_X_val kwargs = X_val \<and> kw_seq_len_val kwargs = seq_len_val
           \<and> kw_y_val kwargs = y_val \<and> kw_s_val kwargs = s_val
           \<and> kw_vocab_sizes kwargs = vocsizes
           \<and> kw_num_numerical_features kwargs = num_numerical_features
           \<and> kwargs_combination kwargs \<in> set hyperparameter_combinations"
proof
  fix kwargs
  assume "kwargs \<in> set (train_calls (new_calls w w'))"
  with run_hyper_train_calls[OF run prep] obtain comb where
    c: "comb \<in> set hyperparameter_combinations"
    and k: "kwargs = sweep_kwargs (X_train, seq_len_train, y_train, s_train, X_val, seq_len_val,
          y_val, s_val, u1, u2, u3, u4, vocsizes, num_numerical_features, new_max_prefix_len) comb"
    by blast
  obtain nl bi ls bs lr dr where comb: "comb = (nl, bi, ls, bs, lr, dr)"
    by (cases comb)
  from c show "kw_loss_function kwargs = ''BCE'' \<and> kw_max_epochs kwargs = 300
           \<and> kw_patience kwargs = 20 \<and> kw_get_history kwargs = False
           \<and> kw_max_length kwargs = new_max_prefix_len
           \<and> kw_X_train kwargs = X_train \<and> kw_seq_len_train kwargs = seq_len_train
           \<and> kw_y_train kwargs = y_train \<and> kw_s_train kwargs = s_train
           \<and> kw_X_val kwargs = X_val \<and> kw_seq_len_val kwargs = seq_len_val
           \<and> kw_y_val kwargs = y_val \<and> kw_s_val kwargs = s_val
           \<and> kw_vocab_sizes kwargs = vocsizes
           \<and> kw_num_numerical_features kwargs = num_numerical_features
           \<and> kwargs_combination kwargs \<in> set hyperparameter_combinations"
    unfolding k kwargs_combination_sweep
    by (simp add: sweep_kwargs_def comb)
qed

theorem training_configuration_fixed_witness:
  "length (train_calls (new_calls world_empty
      (fst (run_hyper env_ok ''Datasets/hiring_log_low.xes.gz'' ''hiring'' 6 ''low'' world_empty))))
     = 144
   \<and> list_all (\<lambda>kwargs. kw_loss_function kwargs = ''BCE'' \<and> kw_max_epochs kwargs = 300
           \<and> kw_patience kwargs = 20 \<and> kw_get_history kwargs = False
           \<and> kw_max_length kwargs = 6)
       (train_calls (new_calls world_empty
      (fst (run_hyper env_ok ''Datasets/hiring_log_low.xes.gz'' ''hiring'' 6 ''low'' world_empty))))"
proof -
  let ?run = "run_hyper env_ok ''Datasets/hiring_log_low.xes.gz'' ''hiring'' 6 ''low'' world_empty"
  have prep: "full_prep env_ok ''Datasets/hiring_log_low.xes.gz'' ''hiring'' 6 False ''case:gender''
           = Inr (1, 2, 3, 4, 5, 6, 7, 8, 9, 10, 11, 12, [4, 7], 3, 6)"
    by (simp add: full_prep_env_ok prep_example_def)
  from training_configuration_fixed[OF prod.collapse[symmetric] prep]
  have "\<forall>kwargs\<in>set (train_calls (new_calls world_empty (fst ?run))).
      kw_loss_function kwargs = ''BCE'' \<and> kw_max_epochs kwargs = 300
           \<and> kw_patience kwargs = 20 \<and> kw_get_history kwargs = False
           \<and> kw_max_length kwargs = 6"
    by blast
  moreover have "length (train_calls (new_calls world_empty (fst ?run))) = 144"
    by (simp add: run_env_ok_empty_train_calls length_combinations)
  ultimately show ?thesis
    by (simp add: list_all_iff)
qed

section \<open>The final flush\<close>



section \<open>What the store holds after each flush\<close>



text \<open>
  Claim C3. When the first \<open>k\<close> combinations left to run pass and training or
  evaluation raises on the next, \<^verbatim>\<open>run_hyper\<close> ends with that exception; training was
  called on these \<open>k + 1\<close> combinations and on no later one; the file is as it was when
  \<open>k = 0\<close> and otherwise holds the existing frame concatenated with the \<open>k\<close> new
  records. A later load of the store reads the existing records followed by those \<open>k\<close>,
  and the failing combination is not among its completed ones.
\<close>

theorem failure_halts_sweep:
  assumes prep: "full_prep env dataset_name logname max_prefix_len False ''case:gender'' = Inr p"
    and load: "load_results w (results_path_of logname addendum) = Inr (existing, completed)"
    and k: "k < length (combinations_to_run completed)"
    and pass: "passes env p (results_path_of logname addendum) existing []
                 (take k (combinations_to_run completed))"
    and raise: "outcome env p (combinations_to_run completed ! k) = Inl e"
  shows "\<exists>w'. run_hyper env dataset_name logname max_prefix_len addendum w = (w', Inl e)
     \<and> map kwargs_combination (train_calls (new_calls w w'))
          = take (Suc k) (combinations_to_run completed)
     \<and> fs w' (results_path_of logname addendum)
          = (if k = 0 then fs w (results_path_of logname addendum)
             else Some (Csv (concat_df existing (DataFrame (map (new_record env p)
                                (take k (combinations_to_run completed)))))))
     \<and> (\<exists>stored completed'.
           load_results w' (results_path_of logname addendum) = Inr (stored, completed')
           \<and> store_records stored
                = store_records existing
                  @ map (\<lambda>c. map snd (new_record env p c)) (take k (combinations_to_run completed))
           \<and> store_keys stored
                = store_keys existing @ map py_tuple (take k (combinations_to_run completed))
           \<and> \<not> py_in (py_tuple (combinations_to_run completed ! k)) completed')"
proof -
  let ?path = "results_path_of logname addendum"
  let ?cs = "combinations_to_run completed"
  let ?done = "take k ?cs"
  let ?c = "?cs ! k"
  let ?df = "concat_df existing (DataFrame (map (new_record env p) ?done))"
  from k have split: "?cs = ?done @ ?c # drop (Suc k) ?cs"
    by (simp add: id_take_nth_drop)
  from k have empty: "?done = [] \<longleftrightarrow> k = 0"
    by (cases ?cs) auto
  from run_hyper_halts[OF prep load split pass raise] obtain w' evs where
    run: "run_hyper env dataset_name logname max_prefix_len addendum w = (w', Inl e)"
    and f: "fs w' = (if ?done = [] then fs w else (fs w)(?path \<mapsto> Csv ?df))"
    and c: "calls w' = calls w
              @ FullPrep dataset_name logname max_prefix_len False ''case:gender'' # evs"
    and t: "train_calls evs = map (sweep_kwargs p) (?done @ [?c])"
    by blast
  from c have "train_calls (new_calls w w') = train_calls evs"
    by (simp add: new_calls_append)
  with t k have tr: "map kwargs_combination (train_calls (new_calls w w')) = take (Suc k) ?cs"
    by (simp add: comp_def take_Suc_conv_app_nth)
  from f empty have fp: "fs w' ?path = (if k = 0 then fs w ?path else Some (Csv ?df))"
    by simp
  note ld = load_results_Inr[OF load]
  have later: "\<exists>stored. load_results w' ?path = Inr (stored, set (store_keys stored))
           \<and> store_records stored
                = store_records existing @ map (\<lambda>c. map snd (new_record env p c)) ?done
           \<and> store_keys stored = store_keys existing @ map py_tuple ?done"
  proof (cases "k = 0")
    case True
    with fp have "load_results w' ?path = load_results w ?path"
      by (simp add: load_results_def read_csv_def)
    with load ld(1) True show ?thesis
      by (intro exI[of _ existing]) simp
  next
    case False
    with fp have "fs w' ?path = Some (Csv ?df)" by simp
    moreover from ld(2) have "set key_columns \<subseteq> set (columns ?df)"
      by (auto simp: columns_concat_df)
    ultimately have "load_results w' ?path = Inr (?df, set (store_keys ?df))"
      by (rule load_results_present)
    then show ?thesis
      by (intro exI[of _ ?df]) (simp add: store_records_flush store_keys_flush)
  qed
  then obtain stored where
    l: "load_results w' ?path = Inr (stored, set (store_keys stored))"
    and sr: "store_records stored
                = store_records existing @ map (\<lambda>c. map snd (new_record env p c)) ?done"
    and sk: "store_keys stored = store_keys existing @ map py_tuple ?done"
    by blast
  have "\<not> py_in (py_tuple ?c) (set (store_keys stored))"
  proof -
    from k have "?c \<in> set ?cs" by simp
    then have old: "\<not> py_in (py_tuple ?c) completed"
      by (simp add: combinations_to_run_def)
    have "distinct ?cs"
      by (simp add: combinations_to_run_def distinct_combinations)
    with k have "?c \<notin> set ?done"
      by (metis split distinct_append disjoint_insert(1) list.simps(15) not_distinct_conv_prefix append.assoc append_Cons append_Nil)
    with old ld(1) show ?thesis
      unfolding sk py_in_def by (auto simp del: py_tuple.simps)
  qed
  with run tr fp l sr sk show ?thesis
    by (intro exI[of _ w']) blast
qed

theorem failure_halts_sweep_witness:
  "snd (run_hyper env_raising ''Datasets/lending_log_high.xes.gz'' ''lending'' 6 ''high'' world_empty)
     = Inl (Raised ''loss is nan'')
   \<and> map kwargs_combination (train_calls (new_calls world_empty
        (fst (run_hyper env_raising ''Datasets/lending_log_high.xes.gz'' ''lending'' 6 ''high''
               world_empty))))
     = [(1, False, 16, 128, 1 / 10000, 2 / 10), (1, False, 16, 128, 1 / 10000, 4 / 10),
        (1, False, 16, 128, 1 / 1000, 2 / 10)]
   \<and> fs (fst (run_hyper env_raising ''Datasets/lending_log_high.xes.gz'' ''lending'' 6 ''high''
               world_empty)) (results_path_of ''lending'' ''high'')
     = Some (Csv \<lparr>columns = result_columns,
                  rows = [[IntV 1, BoolV False, IntV 16, IntV 128, FloatV (1 / 10000),
                           FloatV (2 / 10), FloatV (1 / 2)],
                          [IntV 1, BoolV False, IntV 16, IntV 128, FloatV (1 / 10000),
                           FloatV (4 / 10), FloatV (1 / 2)]]\<rparr>)"
proof -
  let ?run = "run_hyper env_raising ''Datasets/lending_log_high.xes.gz'' ''lending'' 6 ''high'' world_empty"
  let ?path = "results_path_of ''lending'' ''high''"
  let ?existing = "\<lparr>columns = result_columns, rows = []\<rparr>"
  let ?c0 = "(1, False, 16, 128, 1 / 10000, 2 / 10) :: combination"
  let ?c1 = "(1, False, 16, 128, 1 / 10000, 4 / 10) :: combination"
  let ?c2 = "(1, False, 16, 128, 1 / 1000, 2 / 10) :: combination"
  have t3: "take 3 (combinations_to_run {}) = [?c0, ?c1, ?c2]"
    by (simp add: take_3_combinations)
  have t2: "take 2 (combinations_to_run {}) = [?c0, ?c1]"
    by (simp add: grid_defs)
  have nth2: "combinations_to_run {} ! 2 = ?c2"
    by (simp add: grid_defs)
  have k: "2 < length (combinations_to_run {})"
    by (simp add: length_combinations)
  have rec: "new_record env_raising prep_example ?c0 = result_dict ?c0 (1 / 2)"
    "new_record env_raising prep_example ?c1 = result_dict ?c1 (1 / 2)"
    by (simp_all add: new_record_def outcome_env_raising)
  have pass: "passes env_raising prep_example ?path ?existing [] (take 2 (combinations_to_run {}))"
    unfolding t2 by (simp add: outcome_env_raising) (simp add: env_raising_def env_ok_def)
  have raise: "outcome env_raising prep_example (combinations_to_run {} ! 2) = Inl (Raised ''loss is nan'')"
    unfolding nth2 by (simp add: outcome_env_raising)
  from failure_halts_sweep[OF full_prep_env_raising load_world_empty k pass raise,
      where dataset_name = "''Datasets/lending_log_high.xes.gz''" and max_prefix_len = 6]
  obtain w' where run: "?run = (w', Inl (Raised ''loss is nan''))"
    and tr: "map kwargs_combination (train_calls (new_calls world_empty w'))
          = take (Suc 2) (combinations_to_run {})"
    and f: "fs w' ?path = (if (2::nat) = 0 then fs world_empty ?path
             else Some (Csv (concat_df ?existing (DataFrame (map (new_record env_raising prep_example)
                                (take 2 (combinations_to_run {})))))))"
    by blast
  have "concat_df ?existing (DataFrame (map (new_record env_raising prep_example) [?c0, ?c1]))
          = \<lparr>columns = result_columns,
             rows = rows ?existing
                @ map (\<lambda>c. map snd (new_record env_raising prep_example c)) [?c0, ?c1]\<rparr>"
    by (rule concat_df_result_frame) simp_all
  with f have "fs w' ?path = Some (Csv \<lparr>columns = result_columns,
                  rows = [[IntV 1, BoolV False, IntV 16, IntV 128, FloatV (1 / 10000),
                           FloatV (2 / 10), FloatV (1 / 2)],
                          [IntV 1, BoolV False, IntV 16, IntV 128, FloatV (1 / 10000),
                           FloatV (4 / 10), FloatV (1 / 2)]]\<rparr>)"
    unfolding t2 by (simp add: new_record_def outcome_env_raising result_dict_def)
  moreover from tr t3 have "map kwargs_combination (train_calls (new_calls world_empty w'))
      = [?c0, ?c1, ?c2]"
    by (simp add: numeral_3_eq_3)
  ultimately show ?thesis
    by (simp add: run)
qed

section \<open>Failures of loading\<close>



section \<open>Running the sweep again\<close>



section \<open>The store after a sweep\<close>

text \<open>
  Claim C7 says that after an invocation that returns, every combination of the grid is
  in the store, the store holds exactly the grid when it started empty, and no
  combination appears twice. The last part fails where the file already listed a
  combination twice: \<^verbatim>\<open>run_hyper\<close> never removes a record, so both rows are in the
  store it writes. The run below starts from a file with the same row twice.
\<close>

theorem store_has_duplicates_counterexample:
  "\<not> isl (snd (run_hyper env_ok ''Datasets/lending_log_high.xes.gz'' ''lending'' 6 ''high''
             world_dup))
   \<and> fs (fst (run_hyper env_ok ''Datasets/lending_log_high.xes.gz'' ''lending'' 6 ''high''
             world_dup)) (results_path_of ''lending'' ''high'')
     = Some (Csv (projr (snd (run_hyper env_ok ''Datasets/lending_log_high.xes.gz'' ''lending'' 6
             ''high'' world_dup))))
   \<and> \<not> no_dup_keys (store_keys (projr (snd (run_hyper env_ok
         ''Datasets/lending_log_high.xes.gz'' ''lending'' 6 ''high'' world_dup))))"
proof -
  let ?run = "run_hyper env_ok ''Datasets/lending_log_high.xes.gz'' ''lending'' 6 ''high'' world_dup"
  let ?path = "results_path_of ''lending'' ''high''"
  let ?existing = "\<lparr>columns = result_columns, rows = [seeded_row, seeded_row]\<rparr>"
  let ?r = "concat_df ?existing (DataFrame (map (new_record env_ok prep_example)
              (combinations_to_run (set (store_keys ?existing)))))"
  from run_env_ok[OF load_world_dup refl,
      where dataset_name = "''Datasets/lending_log_high.xes.gz''" and max_prefix_len = 6]
  obtain w' where run: "?run = (w', Inr ?r)" and f: "fs w' = (fs world_dup)(?path \<mapsto> Csv ?r)"
    by blast
  have "store_keys ?r = store_keys ?existing
          @ map py_tuple (combinations_to_run (set (store_keys ?existing)))"
    by (rule store_keys_flush)
  moreover have "\<not> no_dup_keys (store_keys ?existing)"
    unfolding store_keys_seeded by (simp del: py_tuple.simps)
  ultimately have "\<not> no_dup_keys (store_keys ?r)"
    by (simp add: no_dup_keys_append)
  with f show ?thesis
    by (simp add: run)
qed

text \<open>
  Claim C7, amended. After an invocation that returns, the file holds the returned frame;
  its key tuples are those of the existing frame followed by the combinations that were
  left to run; every combination of the grid is among them (up to Python's \<^verbatim>\<open>==\<close>);
  when the store started with no record they are exactly the grid, each combination
  once; and when no combination appeared twice in the store at the start, none appears
  twice at the end.
\<close>

theorem store_covers_grid:
  assumes run: "run_hyper env dataset_name logname max_prefix_len addendum w = (w', Inr r)"
    and load: "load_results w (results_path_of logname addendum) = Inr (existing, completed)"
  shows "fs w' (results_path_of logname addendum) = Some (Csv r)
     \<and> store_keys r = store_keys existing @ map py_tuple (combinations_to_run completed)
     \<and> (\<forall>c\<in>set hyperparameter_combinations. py_in (py_tuple c) (set (store_keys r)))
     \<and> (rows existing = [] \<longrightarrow>
          store_keys r = map py_tuple hyperparameter_combinations
          \<and> no_dup_keys (store_keys r))
     \<and> (no_dup_keys (store_keys existing) \<longrightarrow> no_dup_keys (store_keys r))"
proof -
  let ?path = "results_path_of logname addendum"
  from run obtain p existing' completed' where
    prep: "full_prep env dataset_name logname max_prefix_len False ''case:gender'' = Inr p"
    and "load_results w ?path = Inr (existing', completed')"
    by (rule run_hyper_Inr)
  note fin = run_hyper_completes[OF run prep load]
  from run_hyper_finishes[OF prep load fin(1) fin(2)] fin(3) run
  have at: "fs w' ?path = Some (Csv r)"
    by auto
  note ld = load_results_Inr[OF load]
  have keys: "store_keys r = store_keys existing @ map py_tuple (combinations_to_run completed)"
    unfolding fin(2) by (rule store_keys_flush)
  have cover: "\<forall>c\<in>set hyperparameter_combinations. py_in (py_tuple c) (set (store_keys r))"
    unfolding keys ld(1) by (blast intro: grid_covered_after_flush)
  have fresh: "store_keys r = map py_tuple hyperparameter_combinations \<and> no_dup_keys (store_keys r)"
    if "rows existing = []"
  proof -
    from that have "store_keys existing = []"
      by (simp add: store_keys_def)
    with keys ld(1) show ?thesis
      by (simp add: no_dup_keys_py_tuple distinct_combinations del: py_tuple.simps)
  qed
  have keep: "no_dup_keys (store_keys r)" if "no_dup_keys (store_keys existing)"
    unfolding keys ld(1) using that by (rule no_dup_keys_flush)
  from at keys cover fresh keep show ?thesis
    by blast
qed

theorem store_covers_grid_witness:
  "store_keys (projr (snd (run_hyper env_ok ''Datasets/lending_log_high.xes.gz'' ''lending'' 6
       ''high'' world_seeded)))
     = map py_tuple hyperparameter_combinations
   \<and> no_dup_keys (store_keys (projr (snd (run_hyper env_ok ''Datasets/lending_log_high.xes.gz''
       ''lending'' 6 ''high'' world_seeded))))
   \<and> fs (fst (run_hyper env_ok ''Datasets/lending_log_high.xes.gz'' ''lending'' 6 ''high''
       world_seeded)) (results_path_of ''lending'' ''high'')
     = Some (Csv (projr (snd (run_hyper env_ok ''Datasets/lending_log_high.xes.gz'' ''lending'' 6
       ''high'' world_seeded))))"
proof -
  let ?run = "run_hyper env_ok ''Datasets/lending_log_high.xes.gz'' ''lending'' 6 ''high'' world_seeded"
  let ?path = "results_path_of ''lending'' ''high''"
  let ?existing = "\<lparr>columns = result_columns, rows = [seeded_row]\<rparr>"
  let ?c0 = "(1, False, 16, 128, 1 / 10000, 2 / 10) :: combination"
  from run_env_ok[OF load_world_seeded refl,
      where dataset_name = "''Datasets/lending_log_high.xes.gz''" and max_prefix_len = 6]
  obtain w' r where run: "?run = (w', Inr r)"
    by blast
  note claim = store_covers_grid[OF run load_world_seeded]
  from claim have at: "fs w' ?path = Some (Csv r)"
    and keys: "store_keys r = store_keys ?existing @ map py_tuple (combinations_to_run {py_tuple ?c0})"
    and keep: "no_dup_keys (store_keys ?existing) \<longrightarrow> no_dup_keys (store_keys r)"
    by blast+
  have "no_dup_keys (store_keys ?existing)"
    unfolding store_keys_seeded by simp
  with keep have nd: "no_dup_keys (store_keys r)"
    by blast
  have "store_keys r = py_tuple ?c0 # map py_tuple (tl hyperparameter_combinations)"
    unfolding keys store_keys_seeded to_run_seeded by simp
  also have "\<dots> = map py_tuple (?c0 # tl hyperparameter_combinations)"
    by simp
  also have "\<dots> = map py_tuple hyperparameter_combinations"
    using head_combinations by simp
  finally have "store_keys r = map py_tuple hyperparameter_combinations" .
  with nd at show ?thesis
    by (simp add: run)
qed

end
